theory Spec2Isabelle
  imports Main
begin

section \<open>JavaScript values and strings\<close>

text \<open>
  The TypeScript sources read untyped objects (\<open>any\<close>, \<open>Record<string, any>\<close>).
  A field whose run-time type the code inspects is a \<open>jsval\<close>; a field the code only
  uses as a string is a \<open>string option\<close>, with \<open>None\<close> for \<open>undefined\<close>/\<open>null\<close>
  (the two behave alike under \<open>?.\<close>, \<open>??\<close>, \<open>||\<close> and \<open>!\<close>).  Numbers are the
  integer-valued ones.
\<close>

datatype jsval = JUndefined | JNull | JBool bool | JNum int | JStr string

text \<open>Truthiness of an optional string: \<open>undefined\<close> and \<open>""\<close> are falsy.\<close>

definition truthy :: "string option \<Rightarrow> bool" where
  "truthy s = (case s of None \<Rightarrow> False | Some t \<Rightarrow> t \<noteq> [])"

text \<open>\<open>a || b\<close> on optional strings.\<close>

definition js_or :: "string option \<Rightarrow> string option \<Rightarrow> string option" where
  "js_or a b = (if truthy a then a else b)"

text \<open>\<open>s.startsWith(p)\<close>, \<open>s.endsWith(p)\<close> and \<open>s.includes(p)\<close>.\<close>

definition startsWith :: "string \<Rightarrow> string \<Rightarrow> bool" where
  "startsWith s p = (take (length p) s = p)"


fun str_includes :: "string \<Rightarrow> string \<Rightarrow> bool" where
  "str_includes [] p = (p = [])"
| "str_includes (c # cs) p = (startsWith (c # cs) p \<or> str_includes cs p)"

text \<open>\<open>toLowerCase\<close> on the ASCII letters (the only characters the patterns below capture).\<close>

definition toLowerCase_char :: "char \<Rightarrow> char" where
  "toLowerCase_char c =
     (case map_of (zip ''ABCDEFGHIJKLMNOPQRSTUVWXYZ'' ''abcdefghijklmnopqrstuvwxyz'') c of
        None \<Rightarrow> c
      | Some d \<Rightarrow> d)"

definition toLowerCase :: "string \<Rightarrow> string" where
  "toLowerCase s = map toLowerCase_char s"

section \<open>Identifiers (IdParser)\<close>

datatype IdType =
    animePlanetId | animecountdownId | anidbId | anilistId | anisearchId | imdbId | kitsuId
  | livechartId | malId | notifyMoeId | simklId | themoviedbId | thetvdbId | traktId

text \<open>\<open>value: string | number\<close>.\<close>

datatype idvalue = VStr string | VNum nat

subsection \<open>The regular expressions\<close>

text \<open>
  Every regex of \<open>ID_PARSERS\<close> has the shape
  \<open>^(?:p1|...|pk)[:-]?(?<id>C+)T$\<close>, where \<open>C\<close> is \<open>\d\<close> or \<open>[a-zA-Z0-9]\<close>
  and \<open>T\<close> is nothing, \<open>(?::(?<episode>\d+))?\<close> or
  \<open>(?::(?<season>\d+):(?<episode>\d+))?\<close>.  A regex is held as these three parts.
\<close>

datatype idclass = Digit | Alnum

datatype idtail = NoTail | EpisodeTail | SeasonEpisodeTail

record id_regex =
  alts :: "string list"
  idclass :: idclass
  idtail :: idtail

text \<open>\<open>match.groups\<close>: the named groups \<open>id\<close>, \<open>season\<close> and \<open>episode\<close>.\<close>

record groups =
  g_id :: string
  g_season :: "string option"
  g_episode :: "string option"

definition is_digit :: "char \<Rightarrow> bool" where
  "is_digit c = (c \<in> set ''0123456789'')"

definition is_alnum :: "char \<Rightarrow> bool" where
  "is_alnum c =
     (c \<in> set ''abcdefghijklmnopqrstuvwxyzABCDEFGHIJKLMNOPQRSTUVWXYZ0123456789'')"

fun in_class :: "idclass \<Rightarrow> char \<Rightarrow> bool" where
  "in_class Digit c = is_digit c"
| "in_class Alnum c = is_alnum c"

text \<open>\<open>[:-]?\<close>: the separator is taken when it is there.\<close>

fun strip_sep :: "string \<Rightarrow> string" where
  "strip_sep [] = []"
| "strip_sep (c # cs) = (if c = CHR '':'' \<or> c = CHR ''-'' then cs else c # cs)"

text \<open>\<open>:(\d+)\<close> up to the end of \<open>s\<close>, or up to the next colon: the digits and the rest.\<close>

definition colon_digits :: "string \<Rightarrow> (string \<times> string) option" where
  "colon_digits s =
     (case s of
        [] \<Rightarrow> None
      | c # cs \<Rightarrow>
          if c = CHR '':'' \<and> takeWhile is_digit cs \<noteq> []
          then Some (takeWhile is_digit cs, dropWhile is_digit cs)
          else None)"

text \<open>The optional tail and \<open>$\<close>, after the \<open>id\<close> group.\<close>

fun match_tail :: "idtail \<Rightarrow> string \<Rightarrow> string \<Rightarrow> groups option" where
  "match_tail t i [] = Some \<lparr> g_id = i, g_season = None, g_episode = None \<rparr>"
| "match_tail NoTail i (c # cs) = None"
| "match_tail EpisodeTail i (c # cs) =
     (case colon_digits (c # cs) of
        Some (e, []) \<Rightarrow> Some \<lparr> g_id = i, g_season = None, g_episode = Some e \<rparr>
      | _ \<Rightarrow> None)"
| "match_tail SeasonEpisodeTail i (c # cs) =
     (case colon_digits (c # cs) of
        Some (s, r) \<Rightarrow>
          (case colon_digits r of
             Some (e, []) \<Rightarrow> Some \<lparr> g_id = i, g_season = Some s, g_episode = Some e \<rparr>
           | _ \<Rightarrow> None)
      | None \<Rightarrow> None)"

text \<open>\<open>[:-]?(?<id>C+)T$\<close> on what follows the prefix.\<close>

definition match_rest :: "idclass \<Rightarrow> idtail \<Rightarrow> string \<Rightarrow> groups option" where
  "match_rest cl t s =
     (let r = strip_sep s in
      if takeWhile (in_class cl) r = [] then None
      else match_tail t (takeWhile (in_class cl) r) (dropWhile (in_class cl) r))"

text \<open>The alternatives of the prefix, in their order: the first that leads to a match.\<close>

fun match_alts :: "string list \<Rightarrow> idclass \<Rightarrow> idtail \<Rightarrow> string \<Rightarrow> groups option" where
  "match_alts [] cl t s = None"
| "match_alts (p # ps) cl t s =
     (if startsWith s p
      then (case match_rest cl t (drop (length p) s) of
              Some g \<Rightarrow> Some g
            | None \<Rightarrow> match_alts ps cl t s)
      else match_alts ps cl t s)"

text \<open>\<open>stremioId.match(regex)?.groups\<close>\<close>

definition regex_match :: "id_regex \<Rightarrow> string \<Rightarrow> groups option" where
  "regex_match rx s = match_alts (alts rx) (idclass rx) (idtail rx) s"

subsection \<open>Numbers and template literals\<close>

text \<open>
  \<open>Number(id)\<close> on a string of decimal digits, and \<open>`${n}`\<close> on a number.  Both
  are exact up to \<open>2^53\<close>; above it JavaScript rounds to a double, which the model
  does not, so the properties of numeric values below are stated up to that bound.
\<close>

definition digit_val :: "char \<Rightarrow> nat" where
  "digit_val c = (case map_of (zip ''0123456789'' [0, 1, 2, 3, 4, 5, 6, 7, 8, 9]) c of None \<Rightarrow> 0 | Some d \<Rightarrow> d)"

definition Number_digits :: "string \<Rightarrow> nat" where
  "Number_digits s = foldl (\<lambda>n c. 10 * n + digit_val c) 0 s"

definition digit_char :: "nat \<Rightarrow> char" where
  "digit_char d = ''0123456789'' ! d"

fun show_nat :: "nat \<Rightarrow> string" where
  "show_nat n = (if n < 10 then [digit_char n] else show_nat (n div 10) @ [digit_char (n mod 10)])"

declare show_nat.simps [simp del]

text \<open>\<open>`${value}`\<close> and \<open>`${season}`\<close>: an absent argument prints as \<open>undefined\<close>.\<close>

fun show_value :: "idvalue \<Rightarrow> string" where
  "show_value (VStr s) = s"
| "show_value (VNum n) = show_nat n"

fun show_opt :: "string option \<Rightarrow> string" where
  "show_opt None = ''undefined''"
| "show_opt (Some s) = s"

subsection \<open>ID_PARSERS and parse\<close>

record ParsedId =
  type :: IdType
  "value" :: idvalue
  fullId :: string
  externalType :: string
  mediaType :: string
  season :: "string option"
  episode :: "string option"
  generator :: "idvalue \<Rightarrow> string option \<Rightarrow> string option \<Rightarrow> string"

record IdParserDefinition =
  type :: IdType
  externalType :: string
  prefixes :: "string list"
  regex :: id_regex
  format :: "string \<Rightarrow> idvalue"
  generator :: "idvalue \<Rightarrow> string option \<Rightarrow> string option \<Rightarrow> string"

text \<open>
  The three forms of generator: \<open>`${value}:${season}:${episode}`\<close>,
  \<open>`p:${value}:${season}:${episode}`\<close> and \<open>`p:${value}:${episode}`\<close>.
\<close>

definition gen_bare :: "idvalue \<Rightarrow> string option \<Rightarrow> string option \<Rightarrow> string" where
  "gen_bare v s e = show_value v @ '':'' @ show_opt s @ '':'' @ show_opt e"

definition gen_season_episode :: "string \<Rightarrow> idvalue \<Rightarrow> string option \<Rightarrow> string option \<Rightarrow> string" where
  "gen_season_episode p v s e = p @ '':'' @ show_value v @ '':'' @ show_opt s @ '':'' @ show_opt e"

definition gen_episode :: "string \<Rightarrow> idvalue \<Rightarrow> string option \<Rightarrow> string option \<Rightarrow> string" where
  "gen_episode p v s e = p @ '':'' @ show_value v @ '':'' @ show_opt e"

definition format_number :: "string \<Rightarrow> idvalue" where
  "format_number i = VNum (Number_digits i)"

text \<open>The entries of \<open>ID_PARSERS\<close>, one constant each, and the list in its order.\<close>

definition parser_imdbId :: IdParserDefinition where
  "parser_imdbId =
     \<lparr> type = imdbId, externalType = ''imdb_id'', prefixes = [''tt'', ''imdb''],
       regex = \<lparr> alts = [''tt'', ''imdb''], idclass = Digit, idtail = SeasonEpisodeTail \<rparr>,
       format = (\<lambda>i. VStr (''tt'' @ i)),
       generator = gen_bare \<rparr>"

definition parser_malId :: IdParserDefinition where
  "parser_malId =
     \<lparr> type = malId, externalType = ''mal_id'', prefixes = [''mal''],
       regex = \<lparr> alts = [''mal''], idclass = Digit, idtail = EpisodeTail \<rparr>,
       format = format_number,
       generator = gen_episode ''mal'' \<rparr>"

definition parser_thetvdbId :: IdParserDefinition where
  "parser_thetvdbId =
     \<lparr> type = thetvdbId, externalType = ''thetvdb_id'', prefixes = [''tvdb''],
       regex = \<lparr> alts = [''tvdb''], idclass = Digit, idtail = SeasonEpisodeTail \<rparr>,
       format = format_number,
       generator = gen_season_episode ''tvdb'' \<rparr>"

definition parser_themoviedbId :: IdParserDefinition where
  "parser_themoviedbId =
     \<lparr> type = themoviedbId, externalType = ''themoviedb_id'', prefixes = [''tmdb''],
       regex = \<lparr> alts = [''tmdb''], idclass = Digit, idtail = SeasonEpisodeTail \<rparr>,
       format = format_number,
       generator = gen_season_episode ''tmdb'' \<rparr>"

definition parser_kitsuId :: IdParserDefinition where
  "parser_kitsuId =
     \<lparr> type = kitsuId, externalType = ''kitsu_id'', prefixes = [''kitsu''],
       regex = \<lparr> alts = [''kitsu''], idclass = Digit, idtail = EpisodeTail \<rparr>,
       format = format_number,
       generator = gen_episode ''kitsu'' \<rparr>"

definition parser_anilistId :: IdParserDefinition where
  "parser_anilistId =
     \<lparr> type = anilistId, externalType = ''anilist_id'', prefixes = [''anilist''],
       regex = \<lparr> alts = [''anilist''], idclass = Digit, idtail = EpisodeTail \<rparr>,
       format = format_number,
       generator = gen_episode ''anilist'' \<rparr>"

definition parser_anidbId :: IdParserDefinition where
  "parser_anidbId =
     \<lparr> type = anidbId, externalType = ''anidb_id'', prefixes = [''anidb'', ''anidb_id'', ''anidbid''],
       regex = \<lparr> alts = [''anidb'', ''anidb_id'', ''anidbid''], idclass = Digit, idtail = EpisodeTail \<rparr>,
       format = format_number,
       generator = gen_episode ''anidb'' \<rparr>"

definition parser_animePlanetId :: IdParserDefinition where
  "parser_animePlanetId =
     \<lparr> type = animePlanetId, externalType = ''anime-planet_id'', prefixes = [''animeplanet'', ''ap''],
       regex = \<lparr> alts = [''animeplanet'', ''ap''], idclass = Digit, idtail = NoTail \<rparr>,
       format = format_number,
       generator = gen_episode ''animeplanet'' \<rparr>"

definition parser_animecountdownId :: IdParserDefinition where
  "parser_animecountdownId =
     \<lparr> type = animecountdownId, externalType = ''animecountdown_id'', prefixes = [''acd''],
       regex = \<lparr> alts = [''acd''], idclass = Digit, idtail = NoTail \<rparr>,
       format = format_number,
       generator = gen_episode ''acd'' \<rparr>"

definition parser_anisearchId :: IdParserDefinition where
  "parser_anisearchId =
     \<lparr> type = anisearchId, externalType = ''anisearch_id'', prefixes = [''anisearch''],
       regex = \<lparr> alts = [''anisearch''], idclass = Digit, idtail = NoTail \<rparr>,
       format = format_number,
       generator = gen_episode ''anisearch'' \<rparr>"

definition parser_notifyMoeId :: IdParserDefinition where
  "parser_notifyMoeId =
     \<lparr> type = notifyMoeId, externalType = ''notify.moe_id'', prefixes = [''notifymoe'', ''nm''],
       regex = \<lparr> alts = [''notifymoe'', ''nm''], idclass = Alnum, idtail = NoTail \<rparr>,
       format = VStr,
       generator = gen_episode ''notifymoe'' \<rparr>"

definition parser_simklId :: IdParserDefinition where
  "parser_simklId =
     \<lparr> type = simklId, externalType = ''simkl_id'', prefixes = [''simkl''],
       regex = \<lparr> alts = [''simkl''], idclass = Digit, idtail = NoTail \<rparr>,
       format = format_number,
       generator = gen_episode ''simkl'' \<rparr>"

definition ID_PARSERS :: "IdParserDefinition list" where
  "ID_PARSERS =
     [parser_imdbId, parser_malId, parser_thetvdbId, parser_themoviedbId,
      parser_kitsuId, parser_anilistId, parser_anidbId,
      parser_animePlanetId, parser_animecountdownId, parser_anisearchId,
      parser_notifyMoeId, parser_simklId]"

text \<open>
  The \<open>parsedId\<close> object built in the loop body; \<open>season\<close> and \<open>episode\<close> are
  set only when the captured group is truthy.
\<close>

definition toParsedId :: "IdParserDefinition \<Rightarrow> groups \<Rightarrow> string \<Rightarrow> string \<Rightarrow> ParsedId" where
  "toParsedId parser g stremioId media =
     \<lparr> ParsedId.type = IdParserDefinition.type parser,
       value = format parser (g_id g),
       fullId = stremioId,
       externalType = IdParserDefinition.externalType parser,
       mediaType = media,
       season = (if truthy (g_season g) then g_season g else None),
       episode = (if truthy (g_episode g) then g_episode g else None),
       generator = IdParserDefinition.generator parser \<rparr>"

text \<open>The \<open>for\<close> loop of \<open>parse\<close> over the parsers that are left.\<close>

fun parse_loop :: "IdParserDefinition list \<Rightarrow> string \<Rightarrow> string \<Rightarrow> ParsedId option" where
  "parse_loop [] stremioId media = None"
| "parse_loop (parser # rest) stremioId media =
     (case regex_match (regex parser) stremioId of
        Some g \<Rightarrow> Some (toParsedId parser g stremioId media)
      | None \<Rightarrow> parse_loop rest stremioId media)"

definition parse :: "string \<Rightarrow> string \<Rightarrow> ParsedId option" where
  "parse stremioId media = parse_loop ID_PARSERS stremioId media"

section \<open>Presets\<close>

text \<open>
  A thrown exception is a value: \<open>Error\<close> is what the presets throw themselves,
  \<open>TypeError\<close> what \<open>new URL\<close> throws on input that is not a URL.
\<close>

datatype js_error = Error string | TypeError string

text \<open>
  \<open>a ?? b\<close>, and \<open>a || b\<close> on numbers (0 is falsy) and on strings (the empty
  string is falsy).
\<close>

definition nullish :: "'a option \<Rightarrow> 'a \<Rightarrow> 'a" where
  "nullish a b = (case a of None \<Rightarrow> b | Some x \<Rightarrow> x)"

definition num_or :: "int option \<Rightarrow> int \<Rightarrow> int" where
  "num_or a b = (case a of None \<Rightarrow> b | Some x \<Rightarrow> if x \<noteq> 0 then x else b)"

definition str_or :: "string option \<Rightarrow> string \<Rightarrow> string" where
  "str_or a b = (case a of None \<Rightarrow> b | Some x \<Rightarrow> if x \<noteq> [] then x else b)"

subsection \<open>CustomPreset\<close>

text \<open>
  The options object, with the fields \<open>generateAddons\<close> and \<open>generateAddon\<close> read;
  each holds a value of the type its option definition declares, or is absent.
\<close>

record custom_options =
  name :: "string option"
  manifestUrl :: "string option"
  libraryAddon :: "bool option"
  resources :: "string list option"
  mediaTypes :: "string list option"
  timeout :: "int option"
  formatPassthrough :: "bool option"
  streamPassthrough :: "bool option"
  resultPassthrough :: "bool option"
  forceToTop :: "bool option"

record AddonPreset =
  preset_id :: string
  preset_type :: string
  preset_options :: custom_options

record Addon =
  name :: string
  manifestUrl :: "string option"
  enabled :: bool
  library :: bool
  resources :: "string list option"
  mediaTypes :: "string list"
  timeout :: int
  preset :: AddonPreset
  formatPassthrough :: bool
  resultPassthrough :: bool
  forceToTop :: bool
  headers :: "(string \<times> string) list"

text \<open>The values of \<open>Env\<close> (\<open>utils/index.js\<close>) that the presets read.\<close>

record Env =
  DEFAULT_TIMEOUT :: int
  DEFAULT_USER_AGENT :: string
  INTERNAL_URL :: string
  BUILTIN_JACKETT_URL :: "string option"
  BUILTIN_JACKETT_API_KEY :: "string option"

text \<open>\<open>id\<close> and \<open>name\<close> of the entries of \<open>METADATA.OPTIONS\<close>.\<close>

definition custom_option_names :: "(string \<times> string) list" where
  "custom_option_names =
     [(''name'', ''Name''), (''manifestUrl'', ''Manifest URL''),
      (''libraryAddon'', ''Library Addon''), (''formatPassthrough'', ''Format Passthrough''),
      (''resultPassthrough'', ''Result Passthrough''), (''forceToTop'', ''Force to Top''),
      (''timeout'', ''Timeout''), (''resources'', ''Resources''),
      (''mediaTypes'', ''Media Types'')]"

definition generateAddon :: "Env \<Rightarrow> 'u \<Rightarrow> custom_options \<Rightarrow> Addon" where
  "generateAddon env userData options =
     \<lparr> Addon.name = str_or (custom_options.name options) ''Custom'',
       manifestUrl = custom_options.manifestUrl options,
       enabled = True,
       library = nullish (libraryAddon options) False,
       resources = custom_options.resources options,
       mediaTypes = nullish (custom_options.mediaTypes options) [],
       timeout = num_or (custom_options.timeout options) (DEFAULT_TIMEOUT env),
       preset = \<lparr> preset_id = [], preset_type = ''custom'', preset_options = options \<rparr>,
       formatPassthrough =
         nullish (custom_options.formatPassthrough options)
           (nullish (streamPassthrough options) False),
       resultPassthrough = nullish (custom_options.resultPassthrough options) False,
       forceToTop = nullish (custom_options.forceToTop options) False,
       headers = [(''User-Agent'', DEFAULT_USER_AGENT env)] \<rparr>"




subsection \<open>JackettPreset\<close>

record jackett_options =
  jackettUrl :: "string option"
  jackettApiKey :: "string option"

text \<open>
  The \<open>config\<close> object: the object \<open>getBaseConfig\<close> returns, spread, and the four
  fields written after it.
\<close>

record 'b jackett_config =
  base :: 'b
  url :: string
  apiPath :: string
  apiKey :: string
  forceQuerySearch :: bool

text \<open>\<open>s.replace(/\/$/, '')\<close>\<close>

definition strip_trailing_slash :: "string \<Rightarrow> string" where
  "strip_trailing_slash s = (if s \<noteq> [] \<and> last s = CHR ''/'' then butlast s else s)"

text \<open>
  \<open>getBaseConfig\<close> and \<open>base64EncodeJSON\<close> are inherited from \<open>TorznabPreset\<close>
  and are parameters here.
\<close>

definition generateManifestUrl ::
  "Env \<Rightarrow> ('u \<Rightarrow> 's \<Rightarrow> 'b) \<Rightarrow> ('b jackett_config \<Rightarrow> string) \<Rightarrow> 'u \<Rightarrow> 's \<Rightarrow> jackett_options
     \<Rightarrow> js_error + string" where
  "generateManifestUrl env getBaseConfig base64EncodeJSON userData services options =
     (let (jackettUrl, jackettApiKey) =
            (if truthy (jackett_options.jackettUrl options) \<or>
                truthy (jackett_options.jackettApiKey options)
             then (jackett_options.jackettUrl options, jackett_options.jackettApiKey options)
             else (BUILTIN_JACKETT_URL env, BUILTIN_JACKETT_API_KEY env))
      in if \<not> truthy jackettUrl \<or> \<not> truthy jackettApiKey
         then Inl (Error ''Jackett URL and API Key are required'')
         else (case (jackettUrl, jackettApiKey) of
                 (Some u, Some k) \<Rightarrow>
                   Inr (INTERNAL_URL env @ ''/builtins/torznab/'' @
                        base64EncodeJSON
                          \<lparr> base = getBaseConfig userData services,
                            url = strip_trailing_slash u @
                                  ''/api/v2.0/indexers/all/results/torznab'',
                            apiPath = ''/api'',
                            apiKey = k,
                            forceQuerySearch = True \<rparr> @
                        ''/manifest.json'')
               | _ \<Rightarrow> Inl (TypeError ''Cannot read properties of undefined'')))"

section \<open>Torznab results (TorznabAddon)\<close>

record enclosure_entry =
  type :: string
  url :: string

record torznab_attrs =
  infohash :: "string option"
  magneturl :: "string option"
  seeders :: jsval

text \<open>
  A raw result as \<open>performSearch\<close> returns it.  \<open>jackettindexer\<close> holds
  \<open>result.jackettindexer?.name\<close>.  The \<open>size\<close> attributes are left out: no property
  below reads them.
\<close>

record nab_result =
  title :: string
  torznab :: "torznab_attrs option"
  enclosure :: "enclosure_entry list"
  jackettindexer :: "string option"

record UnprocessedTorrent =
  hash :: "string option"
  downloadUrl :: "string option"
  sources :: "string list"
  seeders :: "int option"
  indexer :: "string option"
  title :: string
  type :: string

subsection \<open>The info-hash pattern\<close>

text \<open>
  \<open>/(?:urn(?::|%3A)btih(?::|%3A))([a-f0-9]{40})/i\<close>.  Under the \<open>i\<close> flag a literal
  matches in either case and the class \<open>[a-f0-9]\<close> also matches \<open>A\<close>-\<open>F\<close>.
\<close>

definition ci_prefix :: "string \<Rightarrow> string \<Rightarrow> string option" where
  "ci_prefix p s =
     (if length p \<le> length s \<and> toLowerCase (take (length p) s) = toLowerCase p
      then Some (drop (length p) s) else None)"

definition hex_ci :: "char \<Rightarrow> bool" where
  "hex_ci c = (toLowerCase_char c \<in> set ''abcdef0123456789'')"

text \<open>\<open>(?::|%3A)\<close>: the alternatives in their order.\<close>

definition btih_sep :: "string \<Rightarrow> string option" where
  "btih_sep s = (case ci_prefix '':'' s of Some r \<Rightarrow> Some r | None \<Rightarrow> ci_prefix ''%3A'' s)"

text \<open>The pattern tried at the start of \<open>s\<close>; the result is capture group 1.\<close>

definition btih_here :: "string \<Rightarrow> string option" where
  "btih_here s =
     (case ci_prefix ''urn'' s of None \<Rightarrow> None | Some s1 \<Rightarrow>
     (case btih_sep s1 of None \<Rightarrow> None | Some s2 \<Rightarrow>
     (case ci_prefix ''btih'' s2 of None \<Rightarrow> None | Some s3 \<Rightarrow>
     (case btih_sep s3 of None \<Rightarrow> None | Some s4 \<Rightarrow>
        if 40 \<le> length s4 \<and> list_all hex_ci (take 40 s4) then Some (take 40 s4) else None))))"

text \<open>\<open>s.match(re)?.[1]\<close>: the leftmost position where the pattern matches.\<close>

fun btih_match :: "string \<Rightarrow> string option" where
  "btih_match [] = btih_here []"
| "btih_match (c # cs) =
     (case btih_here (c # cs) of Some h \<Rightarrow> Some h | None \<Rightarrow> btih_match cs)"

text \<open>
  The strings that the prefix \<open>urn(?::|%3A)btih(?::|%3A)\<close> of the pattern matches
  under the \<open>i\<close> flag: the four spellings, letters in either case.
\<close>

definition btih_urn :: "string \<Rightarrow> bool" where
  "btih_urn p =
     (toLowerCase p \<in> set [''urn:btih:'', ''urn%3abtih:'', ''urn:btih%3a'', ''urn%3abtih%3a''])"

subsection \<open>extractInfoHash and _searchTorrents\<close>

text \<open>
  \<open>validateInfoHash\<close> and \<open>extractTrackersFromMagnet\<close> are imported from
  \<open>utils/debrid.js\<close>; the functions below take them as the parameters \<open>vih\<close> and
  \<open>ext\<close>.
\<close>

text \<open>\<open>result.torznab?.infohash\<close>, \<open>result.torznab?.magneturl\<close>, \<open>result.torznab?.seeders\<close>.\<close>

definition torznab_infohash :: "nab_result \<Rightarrow> string option" where
  "torznab_infohash r = (case torznab r of None \<Rightarrow> None | Some t \<Rightarrow> infohash t)"

definition torznab_magneturl :: "nab_result \<Rightarrow> string option" where
  "torznab_magneturl r = (case torznab r of None \<Rightarrow> None | Some t \<Rightarrow> magneturl t)"

definition torznab_seeders :: "nab_result \<Rightarrow> jsval" where
  "torznab_seeders r = (case torznab r of None \<Rightarrow> JUndefined | Some t \<Rightarrow> torznab_attrs.seeders t)"

text \<open>
  \<open>result.enclosure.find(e => e.type === 'application/x-bittorrent' &&
  e.url.includes('magnet:'))?.url\<close>
\<close>

definition magnetEnclosure :: "nab_result \<Rightarrow> string option" where
  "magnetEnclosure r =
     map_option url
       (find (\<lambda>e. enclosure_entry.type e = ''application/x-bittorrent''
                 \<and> str_includes (url e) ''magnet:'') (enclosure r))"

definition extractInfoHash :: "(string option \<Rightarrow> string option) \<Rightarrow> nab_result \<Rightarrow> string option" where
  "extractInfoHash vih r =
     vih (js_or (torznab_infohash r)
           (case js_or (torznab_magneturl r) (magnetEnclosure r) of
              None \<Rightarrow> None
            | Some m \<Rightarrow> map_option toLowerCase (btih_match m)))"

text \<open>
  \<open>result.enclosure.find(e => e.type === 'application/x-bittorrent' &&
  !e.url.includes('magnet:'))?.url\<close>, the \<open>downloadUrl\<close> of the loop.
\<close>

definition torrentEnclosure :: "nab_result \<Rightarrow> string option" where
  "torrentEnclosure r =
     map_option url
       (find (\<lambda>e. enclosure_entry.type e = ''application/x-bittorrent''
                 \<and> \<not> str_includes (url e) ''magnet:'') (enclosure r))"

text \<open>The object pushed onto \<open>torrents\<close> for a result that is kept.\<close>

definition toTorrent ::
  "(string option \<Rightarrow> string option) \<Rightarrow> (string \<Rightarrow> string list) \<Rightarrow> nab_result \<Rightarrow> UnprocessedTorrent" where
  "toTorrent vih ext r =
     \<lparr> hash = extractInfoHash vih r,
       downloadUrl = torrentEnclosure r,
       sources = (if truthy (torznab_magneturl r)
                  then (case torznab_magneturl r of None \<Rightarrow> [] | Some m \<Rightarrow> ext m)
                  else []),
       seeders = (case torznab_seeders r of
                    JNum n \<Rightarrow> if n \<notin> set [-1, 999] then Some n else None
                  | _ \<Rightarrow> None),
       indexer = jackettindexer r,
       title = nab_result.title r,
       type = ''torrent'' \<rparr>"

text \<open>\<open>infoHash ?? downloadUrl!\<close>\<close>

definition dedupKey :: "(string option \<Rightarrow> string option) \<Rightarrow> nab_result \<Rightarrow> string option" where
  "dedupKey vih r =
     (case extractInfoHash vih r of Some h \<Rightarrow> Some h | None \<Rightarrow> torrentEnclosure r)"

text \<open>The test of \<open>if (!infoHash && !downloadUrl) continue\<close>, negated.\<close>

definition usable :: "(string option \<Rightarrow> string option) \<Rightarrow> nab_result \<Rightarrow> bool" where
  "usable vih r = (truthy (extractInfoHash vih r) \<or> truthy (torrentEnclosure r))"

text \<open>The \<open>for\<close> loop, with \<open>seenTorrents\<close> and \<open>torrents\<close> as its state.\<close>

fun searchLoop ::
  "(string option \<Rightarrow> string option) \<Rightarrow> (string \<Rightarrow> string list) \<Rightarrow> nab_result list
     \<Rightarrow> string option set \<Rightarrow> UnprocessedTorrent list \<Rightarrow> UnprocessedTorrent list" where
  "searchLoop vih ext [] seenTorrents torrents = torrents"
| "searchLoop vih ext (r # rs) seenTorrents torrents =
     (if \<not> truthy (extractInfoHash vih r) \<and> \<not> truthy (torrentEnclosure r)
      then searchLoop vih ext rs seenTorrents torrents
      else if dedupKey vih r \<in> seenTorrents
      then searchLoop vih ext rs seenTorrents torrents
      else searchLoop vih ext rs (insert (dedupKey vih r) seenTorrents)
             (torrents @ [toTorrent vih ext r]))"

definition searchTorrents ::
  "(string option \<Rightarrow> string option) \<Rightarrow> (string \<Rightarrow> string list) \<Rightarrow> nab_result list
     \<Rightarrow> UnprocessedTorrent list" where
  "searchTorrents vih ext results = searchLoop vih ext results {} []"

text \<open>
  Modelled from the spec: \<open>validateInfoHash\<close> (\<open>utils/debrid.js\<close>, not among the
  sources).  The spec calls it the hash-format validator: an info hash is 40 hexadecimal
  characters, held in lower case; a hash failing validation is absent, not an error.
\<close>

definition validateInfoHash :: "string option \<Rightarrow> string option" where
  "validateInfoHash h =
     (case h of
        None \<Rightarrow> None
      | Some s \<Rightarrow> if length s = 40 \<and> list_all hex_ci s then Some (toLowerCase s) else None)"

text \<open>The results the loop keeps, given the keys already seen.\<close>

fun kept :: "(string option \<Rightarrow> string option) \<Rightarrow> string option set \<Rightarrow> nab_result list \<Rightarrow> nab_result list" where
  "kept vih seen [] = []"
| "kept vih seen (r # rs) =
     (if usable vih r \<and> dedupKey vih r \<notin> seen
      then r # kept vih (insert (dedupKey vih r) seen) rs
      else kept vih seen rs)"

text \<open>The pattern matches at no position of \<open>pre\<close> in the string \<open>pre @ r\<close>.\<close>

fun btih_free :: "string \<Rightarrow> string \<Rightarrow> bool" where
  "btih_free [] r = True"
| "btih_free (c # cs) r = (btih_here (c # cs @ r) = None \<and> btih_free cs r)"

section \<open>Example inputs\<close>

definition ex_hash :: string where
  "ex_hash = ''c12fe1c06bba254a9dc9f519b335aa7c1367a88a''"

definition ex_magnet :: string where
  "ex_magnet = ''magnet:?xt=urn:btih:C12FE1C06BBA254A9DC9F519B335AA7C1367A88A&tr=udp%3A%2F%2Ftracker.example.org%3A1337''"

definition ex_by_hash :: nab_result where
  "ex_by_hash =
     \<lparr> nab_result.title = ''Release A'',
       torznab = Some \<lparr> infohash = Some ex_hash, magneturl = None, torznab_attrs.seeders = JNum 42 \<rparr>,
       enclosure = [],
       jackettindexer = Some ''indexer-one'' \<rparr>"

definition ex_by_magnet :: nab_result where
  "ex_by_magnet =
     \<lparr> nab_result.title = ''Release A (mirror)'',
       torznab = Some \<lparr> infohash = None, magneturl = Some ex_magnet, torznab_attrs.seeders = JNum 999 \<rparr>,
       enclosure = [],
       jackettindexer = None \<rparr>"

definition ex_by_file :: nab_result where
  "ex_by_file =
     \<lparr> nab_result.title = ''Release B'',
       torznab = None,
       enclosure = [\<lparr> enclosure_entry.type = ''application/x-bittorrent'',
                      url = ''https://example.com/b.torrent'' \<rparr>],
       jackettindexer = None \<rparr>"


definition ex_enclosure_magnet :: nab_result where
  "ex_enclosure_magnet =
     \<lparr> nab_result.title = ''Release C'',
       torznab = None,
       enclosure = [\<lparr> enclosure_entry.type = ''application/x-bittorrent'', url = ex_magnet \<rparr>],
       jackettindexer = None \<rparr>"

definition ex_nzb_only :: nab_result where
  "ex_nzb_only =
     \<lparr> nab_result.title = ''Release D'',
       torznab = None,
       enclosure = [\<lparr> enclosure_entry.type = ''application/x-nzb'',
                      url = ''https://example.com/d.nzb'' \<rparr>],
       jackettindexer = None \<rparr>"

definition ex_short_hash :: nab_result where
  "ex_short_hash =
     \<lparr> nab_result.title = ''Release E'',
       torznab = Some \<lparr> infohash = Some ''c12fe1c06bba254a9dc9f519b335aa7c1367a88'',
                        magneturl = Some ex_magnet, torznab_attrs.seeders = JUndefined \<rparr>,
       enclosure = [],
       jackettindexer = None \<rparr>"

text \<open>
  Magnet links as indexers give them, with a display name before the hash and a tracker
  after it; one with a second hash; one whose candidate starts with \<open>g\<close>; one with
  a candidate of 39 characters.  Then results that carry several of the three sources at
  once.
\<close>

definition ex_magnet_dn :: string where
  "ex_magnet_dn = ''magnet:?dn=Ubuntu+Linux&xt=urn:btih:C12FE1C06BBA254A9DC9F519B335AA7C1367A88A&tr=udp%3A%2F%2Ftracker.example.org%3A1337''"

definition ex_magnet2 :: string where
  "ex_magnet2 = ''magnet:?xt=urn:btih:0123456789abcdef0123456789abcdef01234567&dn=Other''"

definition ex_magnet_nonhex :: string where
  "ex_magnet_nonhex = ''magnet:?dn=Ubuntu+Linux&xt=urn%3Abtih%3Ag12fe1c06bba254a9dc9f519b335aa7c1367a88a&tr=udp%3A%2F%2Ftracker.example.org%3A1337''"

definition ex_magnet_short :: string where
  "ex_magnet_short = ''magnet:?dn=Ubuntu+Linux&xt=urn:btih:c12fe1c06bba254a9dc9f519b335aa7c1367a88&tr=udp%3A%2F%2Ftracker.example.org%3A1337''"

definition ex_field_first :: nab_result where
  "ex_field_first =
     \<lparr> nab_result.title = ''Release G'',
       torznab = Some \<lparr> infohash = Some ex_hash, magneturl = Some ex_magnet2,
                        torznab_attrs.seeders = JUndefined \<rparr>,
       enclosure = [\<lparr> enclosure_entry.type = ''application/x-bittorrent'', url = ex_magnet2 \<rparr>],
       jackettindexer = None \<rparr>"

definition ex_magneturl_first :: nab_result where
  "ex_magneturl_first =
     \<lparr> nab_result.title = ''Release H'',
       torznab = Some \<lparr> infohash = Some [], magneturl = Some ex_magnet_dn,
                        torznab_attrs.seeders = JUndefined \<rparr>,
       enclosure = [\<lparr> enclosure_entry.type = ''application/x-bittorrent'', url = ex_magnet2 \<rparr>],
       jackettindexer = None \<rparr>"

definition ex_enclosure_first :: nab_result where
  "ex_enclosure_first =
     \<lparr> nab_result.title = ''Release I'',
       torznab = None,
       enclosure = [\<lparr> enclosure_entry.type = ''application/x-nzb'', url = ex_magnet2 \<rparr>,
                    \<lparr> enclosure_entry.type = ''application/x-bittorrent'',
                      url = ''https://example.com/i.torrent'' \<rparr>,
                    \<lparr> enclosure_entry.type = ''application/x-bittorrent'', url = ex_magnet_dn \<rparr>,
                    \<lparr> enclosure_entry.type = ''application/x-bittorrent'', url = ex_magnet2 \<rparr>],
       jackettindexer = None \<rparr>"

definition ex_nonhex_first :: nab_result where
  "ex_nonhex_first =
     \<lparr> nab_result.title = ''Release J'',
       torznab = Some \<lparr> infohash = None, magneturl = Some ex_magnet_nonhex,
                        torznab_attrs.seeders = JUndefined \<rparr>,
       enclosure = [\<lparr> enclosure_entry.type = ''application/x-bittorrent'', url = ex_magnet2 \<rparr>],
       jackettindexer = None \<rparr>"

definition ex_short_enclosure :: nab_result where
  "ex_short_enclosure =
     \<lparr> nab_result.title = ''Release K'',
       torznab = Some \<lparr> infohash = None, magneturl = Some [],
                        torznab_attrs.seeders = JUndefined \<rparr>,
       enclosure = [\<lparr> enclosure_entry.type = ''application/x-bittorrent'', url = ex_magnet_short \<rparr>],
       jackettindexer = None \<rparr>"

definition ex_no_source :: nab_result where
  "ex_no_source =
     \<lparr> nab_result.title = ''Release L'',
       torznab = None,
       enclosure = [\<lparr> enclosure_entry.type = ''application/x-nzb'', url = ex_magnet2 \<rparr>,
                    \<lparr> enclosure_entry.type = ''application/x-bittorrent'',
                      url = ''https://example.com/l.torrent'' \<rparr>],
       jackettindexer = None \<rparr>"

text \<open>What \<open>parse\<close> returns for \<open>tt1234567\<close> (a movie) and for \<open>kitsu-012:3\<close>.\<close>

definition ex_parsed_tt :: ParsedId where
  "ex_parsed_tt =
     \<lparr> ParsedId.type = imdbId, value = VStr ''tt1234567'', fullId = ''tt1234567'',
       externalType = ''imdb_id'', mediaType = ''movie'', season = None, episode = None,
       generator = gen_bare \<rparr>"

definition ex_parsed_kitsu :: ParsedId where
  "ex_parsed_kitsu =
     \<lparr> ParsedId.type = kitsuId, value = VNum 12, fullId = ''kitsu-012:3'',
       externalType = ''kitsu_id'', mediaType = ''series'', season = None,
       episode = Some ''3'', generator = gen_episode ''kitsu'' \<rparr>"


definition ex_env :: Env where
  "ex_env =
     \<lparr> DEFAULT_TIMEOUT = 15000, DEFAULT_USER_AGENT = ''AIOStreams'',
       INTERNAL_URL = ''http://localhost:3000'',
       BUILTIN_JACKETT_URL = Some ''http://jackett:9117/'',
       BUILTIN_JACKETT_API_KEY = Some ''builtin-key'' \<rparr>"

definition ex_custom :: custom_options where
  "ex_custom =
     \<lparr> custom_options.name = Some ''My Addon'',
       manifestUrl = Some ''https://example.com/foo/manifest.json'',
       libraryAddon = None, resources = None, mediaTypes = None, timeout = Some 0,
       formatPassthrough = Some False, streamPassthrough = Some True,
       resultPassthrough = None, forceToTop = None \<rparr>"

text \<open>
  A stand-in for \<open>base64EncodeJSON\<close> that shows the \<open>url\<close> and the \<open>apiKey\<close> of
  the configuration it is given.
\<close>

definition ex_encode :: "unit jackett_config \<Rightarrow> string" where
  "ex_encode c = jackett_config.url c @ ''?'' @ apiKey c"

section \<open>Properties of _searchTorrents\<close>

lemma searchLoop_kept:
  "searchLoop vih ext rs seen out = out @ map (toTorrent vih ext) (kept vih seen rs)"
  by (induction rs arbitrary: seen out) (simp_all add: usable_def)

lemma searchTorrents_kept:
  "searchTorrents vih ext rs = map (toTorrent vih ext) (kept vih {} rs)"
  by (simp add: searchTorrents_def searchLoop_kept)

lemma kept_keys:
  "distinct (map (dedupKey vih) (kept vih seen rs)) \<and>
   dedupKey vih ` set (kept vih seen rs) \<inter> seen = {}"
proof (induction rs arbitrary: seen)
  case Nil
  show ?case by simp
next
  case (Cons r rs)
  show ?case
  proof (cases "usable vih r \<and> dedupKey vih r \<notin> seen")
    case True
    from Cons.IH [of "insert (dedupKey vih r) seen"] True show ?thesis by auto
  next
    case False
    with Cons.IH [of seen] show ?thesis by auto
  qed
qed

lemma kept_subset: "set (kept vih seen rs) \<subseteq> {r \<in> set rs. usable vih r}"
  by (induction rs arbitrary: seen) auto

lemma upt_Suc_shift: "[0..<Suc n] = 0 # map Suc [0..<n]"
  by (simp add: upt_conv_Cons map_Suc_upt del: upt_Suc)

lemma nth_filter_upt_Cons:
  "map ((!) (r # rs)) (filter P [0..<length (r # rs)]) =
     (if P 0 then [r] else []) @ map ((!) rs) (filter (\<lambda>i. P (Suc i)) [0..<length rs])"
  by (simp add: upt_Suc_shift filter_map comp_def del: upt_Suc)

lemma kept_index:
  "kept vih seen rs =
     map ((!) rs)
       (filter (\<lambda>i. usable vih (rs ! i) \<and> dedupKey vih (rs ! i) \<notin> seen \<and>
                    (\<forall>j<i. usable vih (rs ! j) \<longrightarrow> dedupKey vih (rs ! j) \<noteq> dedupKey vih (rs ! i)))
          [0..<length rs])"
proof (induction rs arbitrary: seen)
  case Nil
  show ?case by simp
next
  case (Cons r rs)
  let ?P = "\<lambda>s xs i. usable vih (xs ! i) \<and> dedupKey vih (xs ! i) \<notin> s \<and>
                    (\<forall>j<i. usable vih (xs ! j) \<longrightarrow> dedupKey vih (xs ! j) \<noteq> dedupKey vih (xs ! i))"
  show ?case
  proof (cases "usable vih r \<and> dedupKey vih r \<notin> seen")
    case True
    have eq: "\<And>i. ?P seen (r # rs) (Suc i) = ?P (insert (dedupKey vih r) seen) rs i"
      using True by (auto simp: less_Suc_eq_0_disj)
    have "kept vih seen (r # rs) = r # kept vih (insert (dedupKey vih r) seen) rs"
      using True by simp
    also have "\<dots> = r # map ((!) rs) (filter (?P (insert (dedupKey vih r) seen) rs) [0..<length rs])"
      by (simp only: Cons.IH)
    also have "\<dots> = map ((!) (r # rs)) (filter (?P seen (r # rs)) [0..<length (r # rs)])"
      unfolding nth_filter_upt_Cons eq using True by simp
    finally show ?thesis .
  next
    case False
    have eq: "\<And>i. ?P seen (r # rs) (Suc i) = ?P seen rs i"
      using False by (auto simp: less_Suc_eq_0_disj)
    have "kept vih seen (r # rs) = kept vih seen rs"
      using False by auto
    also have "\<dots> = map ((!) rs) (filter (?P seen rs) [0..<length rs])"
      by (simp only: Cons.IH)
    also have "\<dots> = map ((!) (r # rs)) (filter (?P seen (r # rs)) [0..<length (r # rs)])"
      unfolding nth_filter_upt_Cons eq using False by auto
    finally show ?thesis .
  qed
qed


lemma toTorrent_fields [simp]:
  "hash (toTorrent vih ext r) = extractInfoHash vih r"
  "downloadUrl (toTorrent vih ext r) = torrentEnclosure r"
  by (simp_all add: toTorrent_def)

lemma first_seen_records:
  assumes "out = searchTorrents vih ext rs"
  shows "(\<forall>i<length out. \<forall>j<length out. i \<noteq> j \<longrightarrow>
            (hash (out ! i) \<noteq> None \<longrightarrow> hash (out ! i) \<noteq> hash (out ! j)) \<and>
            (hash (out ! i) = None \<and> hash (out ! j) = None \<longrightarrow>
               downloadUrl (out ! i) \<noteq> downloadUrl (out ! j)))
       \<and> out = map (toTorrent vih ext) (map ((!) rs)
               (filter (\<lambda>i. usable vih (rs ! i) \<and>
                            (\<forall>j<i. usable vih (rs ! j) \<longrightarrow>
                               dedupKey vih (rs ! j) \<noteq> dedupKey vih (rs ! i)))
                  [0..<length rs]))"
proof
  let ?ks = "kept vih {} rs"
  have out: "out = map (toTorrent vih ext) ?ks"
    using assms by (simp add: searchTorrents_kept)
  have dist: "distinct (map (dedupKey vih) ?ks)"
    using kept_keys [of vih "{}" rs] by simp
  show "\<forall>i<length out. \<forall>j<length out. i \<noteq> j \<longrightarrow>
            (hash (out ! i) \<noteq> None \<longrightarrow> hash (out ! i) \<noteq> hash (out ! j)) \<and>
            (hash (out ! i) = None \<and> hash (out ! j) = None \<longrightarrow>
               downloadUrl (out ! i) \<noteq> downloadUrl (out ! j))"
  proof (intro allI impI)
    fix i j
    assume i: "i < length out" and j: "j < length out" and ne: "i \<noteq> j"
    from i j out have i': "i < length ?ks" and j': "j < length ?ks" by simp_all
    from dist i' j' ne have keys: "dedupKey vih (?ks ! i) \<noteq> dedupKey vih (?ks ! j)"
      by (simp add: distinct_conv_nth)
    have hi: "hash (out ! i) = extractInfoHash vih (?ks ! i)"
      and hj: "hash (out ! j) = extractInfoHash vih (?ks ! j)"
      and ui: "downloadUrl (out ! i) = torrentEnclosure (?ks ! i)"
      and uj: "downloadUrl (out ! j) = torrentEnclosure (?ks ! j)"
      using i' j' out by simp_all
    show "(hash (out ! i) \<noteq> None \<longrightarrow> hash (out ! i) \<noteq> hash (out ! j)) \<and>
          (hash (out ! i) = None \<and> hash (out ! j) = None \<longrightarrow>
             downloadUrl (out ! i) \<noteq> downloadUrl (out ! j))"
      using keys unfolding hi hj ui uj dedupKey_def
      by (auto split: option.splits)
  qed
next
  show "out = map (toTorrent vih ext) (map ((!) rs)
               (filter (\<lambda>i. usable vih (rs ! i) \<and>
                            (\<forall>j<i. usable vih (rs ! j) \<longrightarrow>
                               dedupKey vih (rs ! j) \<noteq> dedupKey vih (rs ! i)))
                  [0..<length rs]))"
    using assms kept_index [of vih "{}" rs] by (simp add: searchTorrents_kept)
qed

lemma ex_eval:
  "extractInfoHash validateInfoHash ex_by_hash = Some ex_hash"
  "extractInfoHash validateInfoHash ex_by_magnet = Some ex_hash"
  "extractInfoHash validateInfoHash ex_by_file = None"
  "torrentEnclosure ex_by_hash = None"
  "torrentEnclosure ex_by_magnet = None"
  "torrentEnclosure ex_by_file = Some ''https://example.com/b.torrent''"
  by code_simp+


lemma ex_usable:
  "usable validateInfoHash ex_by_hash"
  "usable validateInfoHash ex_by_magnet"
  "usable validateInfoHash ex_by_file"
  by (simp_all add: usable_def ex_eval truthy_def ex_hash_def)

lemma ex_keys:
  "dedupKey validateInfoHash ex_by_hash = Some ex_hash"
  "dedupKey validateInfoHash ex_by_magnet = Some ex_hash"
  "dedupKey validateInfoHash ex_by_file = Some ''https://example.com/b.torrent''"
  by (simp_all add: dedupKey_def ex_eval)

lemma upt_4: "[0..<length [a, b, c, d]] = [0, Suc 0, Suc (Suc 0), Suc (Suc (Suc 0))]"
  by (simp add: upt_rec)


text \<open>
  Claim C1.  In the list \<open>_searchTorrents\<close> returns, no two records have the same
  present info hash, and no two records without a hash have the same download URL.  The
  dedup key of a raw result is its extracted info hash if there is one, else its download
  URL, and the records emitted are those of the raw results that are kept by the
  hash-or-URL test and are the first, in input order, with their key.
\<close>

theorem searchTorrents_first_seen:
  assumes "out = searchTorrents vih ext rs"
  shows "(\<forall>i<length out. \<forall>j<length out. i \<noteq> j \<longrightarrow>
            (hash (out ! i) \<noteq> None \<longrightarrow> hash (out ! i) \<noteq> hash (out ! j)) \<and>
            (hash (out ! i) = None \<and> hash (out ! j) = None \<longrightarrow>
               downloadUrl (out ! i) \<noteq> downloadUrl (out ! j)))
       \<and> out = map (toTorrent vih ext) (map ((!) rs)
               (filter (\<lambda>i. usable vih (rs ! i) \<and>
                            (\<forall>j<i. usable vih (rs ! j) \<longrightarrow>
                               dedupKey vih (rs ! j) \<noteq> dedupKey vih (rs ! i)))
                  [0..<length rs]))
       \<and> (\<forall>r. dedupKey vih r =
               (case extractInfoHash vih r of None \<Rightarrow> torrentEnclosure r | Some h \<Rightarrow> Some h))
       \<and> (\<forall>r. usable vih r \<longleftrightarrow>
               truthy (extractInfoHash vih r) \<or> truthy (torrentEnclosure r))"
proof -
  note main = first_seen_records [OF assms]
  have k: "\<forall>r. dedupKey vih r =
               (case extractInfoHash vih r of None \<Rightarrow> torrentEnclosure r | Some h \<Rightarrow> Some h)"
    by (simp add: dedupKey_def split: option.splits)
  have u: "\<forall>r. usable vih r \<longleftrightarrow>
               truthy (extractInfoHash vih r) \<or> truthy (torrentEnclosure r)"
    by (simp add: usable_def)
  show ?thesis
    by (intro conjI) (rule main [THEN conjunct1], rule main [THEN conjunct2], rule k, rule u)
qed

text \<open>
  The same release by its hash field and by a magnet link, and one torrent file listed
  twice: one record each.
\<close>

theorem searchTorrents_first_seen_witness:
  "searchTorrents validateInfoHash (\<lambda>m. []) [ex_by_hash, ex_by_magnet, ex_by_file, ex_by_file]
     = [toTorrent validateInfoHash (\<lambda>m. []) ex_by_hash,
        toTorrent validateInfoHash (\<lambda>m. []) ex_by_file]"
proof -
  let ?rs = "[ex_by_hash, ex_by_magnet, ex_by_file, ex_by_file]"
  have sel: "filter (\<lambda>i. usable validateInfoHash (?rs ! i) \<and>
                (\<forall>j<i. usable validateInfoHash (?rs ! j) \<longrightarrow>
                   dedupKey validateInfoHash (?rs ! j) \<noteq> dedupKey validateInfoHash (?rs ! i)))
             [0, Suc 0, Suc (Suc 0), Suc (Suc (Suc 0))] = [0, Suc (Suc 0)]"
    by (simp add: ex_usable ex_keys ex_hash_def All_less_Suc)
  show ?thesis
    using searchTorrents_first_seen [OF refl, of validateInfoHash "\<lambda>m. []" ?rs,
        THEN conjunct2, THEN conjunct1]
    unfolding upt_4 sel by simp
qed

lemma kept_drop_unusable:
  "\<not> usable vih r \<Longrightarrow> kept vih seen (xs @ r # ys) = kept vih seen (xs @ ys)"
  by (induction xs arbitrary: seen) simp_all

lemma find_none_type:
  "\<forall>e\<in>set es. enclosure_entry.type e \<noteq> ty \<Longrightarrow>
     find (\<lambda>e. enclosure_entry.type e = ty \<and> Q e) es = None"
  by (induction es) simp_all

text \<open>
  Claim C2.  A raw result with neither a usable info hash nor a non-magnet torrent-file
  enclosure URL emits no record: the output is the same with or without it.  Every
  emitted record has a hash or a download URL.  A result whose enclosures are all of a
  non-torrent type has no download URL, and is dropped when it has no hash either.
\<close>

theorem searchTorrents_discards_unusable:
  "(\<not> truthy (extractInfoHash vih r) \<and> \<not> truthy (torrentEnclosure r) \<longrightarrow>
      searchTorrents vih ext (xs @ r # ys) = searchTorrents vih ext (xs @ ys))
   \<and> (\<forall>t\<in>set (searchTorrents vih ext rs). truthy (hash t) \<or> truthy (downloadUrl t))
   \<and> ((\<forall>e\<in>set (enclosure r). enclosure_entry.type e \<noteq> ''application/x-bittorrent'') \<and>
        \<not> truthy (extractInfoHash vih r) \<longrightarrow>
      torrentEnclosure r = None \<and> searchTorrents vih ext [r] = [])"
proof (intro conjI impI)
  assume "\<not> truthy (extractInfoHash vih r) \<and> \<not> truthy (torrentEnclosure r)"
  then have "\<not> usable vih r" by (simp add: usable_def)
  then show "searchTorrents vih ext (xs @ r # ys) = searchTorrents vih ext (xs @ ys)"
    by (simp add: searchTorrents_kept kept_drop_unusable)
next
  show "\<forall>t\<in>set (searchTorrents vih ext rs). truthy (hash t) \<or> truthy (downloadUrl t)"
  proof
    fix t assume "t \<in> set (searchTorrents vih ext rs)"
    then obtain r' where r': "r' \<in> set (kept vih {} rs)" and t: "t = toTorrent vih ext r'"
      by (auto simp: searchTorrents_kept)
    from r' kept_subset [of vih "{}" rs] have "usable vih r'" by auto
    with t show "truthy (hash t) \<or> truthy (downloadUrl t)"
      by (simp add: usable_def)
  qed
next
  assume h: "(\<forall>e\<in>set (enclosure r). enclosure_entry.type e \<noteq> ''application/x-bittorrent'') \<and>
        \<not> truthy (extractInfoHash vih r)"
  then show none: "torrentEnclosure r = None"
    by (simp add: torrentEnclosure_def find_none_type)
  with h have "\<not> usable vih r" by (simp add: usable_def truthy_def)
  then show "searchTorrents vih ext [r] = []"
    by (simp add: searchTorrents_kept)
qed

lemma ex_nzb_eval:
  "extractInfoHash validateInfoHash ex_nzb_only = None"
  "torrentEnclosure ex_nzb_only = None"
  by code_simp+

text \<open>A result with only an NZB enclosure, between two results that are kept.\<close>

theorem searchTorrents_discards_unusable_witness:
  "searchTorrents validateInfoHash (\<lambda>m. []) [ex_by_hash, ex_nzb_only, ex_by_file]
     = searchTorrents validateInfoHash (\<lambda>m. []) [ex_by_hash, ex_by_file]
   \<and> searchTorrents validateInfoHash (\<lambda>m. []) [ex_nzb_only] = []
   \<and> truthy (hash (toTorrent validateInfoHash (\<lambda>m. []) ex_by_hash))"
proof -
  note inst = searchTorrents_discards_unusable
      [of validateInfoHash ex_nzb_only "\<lambda>m. []" "[ex_by_hash]" "[ex_by_file]" "[ex_by_hash]"]
  have a: "\<not> truthy (extractInfoHash validateInfoHash ex_nzb_only) \<and>
           \<not> truthy (torrentEnclosure ex_nzb_only)"
    by (simp add: ex_nzb_eval truthy_def)
  have b: "\<forall>e\<in>set (enclosure ex_nzb_only). enclosure_entry.type e \<noteq> ''application/x-bittorrent''"
    by (simp add: ex_nzb_only_def)
  have c: "toTorrent validateInfoHash (\<lambda>m. []) ex_by_hash
             \<in> set (searchTorrents validateInfoHash (\<lambda>m. []) [ex_by_hash])"
    by (simp add: searchTorrents_kept ex_usable)
  from inst a have e1: "searchTorrents validateInfoHash (\<lambda>m. []) ([ex_by_hash] @ ex_nzb_only # [ex_by_file])
     = searchTorrents validateInfoHash (\<lambda>m. []) ([ex_by_hash] @ [ex_by_file])" by blast
  from inst a b have e2: "searchTorrents validateInfoHash (\<lambda>m. []) [ex_nzb_only] = []" by blast
  from inst c have e3: "truthy (hash (toTorrent validateInfoHash (\<lambda>m. []) ex_by_hash))
      \<or> truthy (downloadUrl (toTorrent validateInfoHash (\<lambda>m. []) ex_by_hash))" by blast
  from e3 have e4: "truthy (hash (toTorrent validateInfoHash (\<lambda>m. []) ex_by_hash))"
    by (simp add: ex_eval truthy_def)
  from e1 e2 e4 show ?thesis by simp
qed

lemma torznab_seeders_update:
  "torznab_seeders (r\<lparr>torznab := Some (a\<lparr>torznab_attrs.seeders := v\<rparr>)\<rparr>) = v"
  by (simp add: torznab_seeders_def)

lemma toTorrent_seeders:
  "seeders (toTorrent vih ext r) =
     (case torznab_seeders r of
        JNum n \<Rightarrow> if n = - 1 \<or> n = 999 then None else Some n
      | _ \<Rightarrow> None)"
  by (simp add: toTorrent_def split: jsval.splits)

lemma kept_sub: "set (kept vih seen rs) \<subseteq> set rs"
  using kept_subset [of vih seen rs] by auto

text \<open>
  Claim C3.  Every emitted record is the record of one of the raw results, and the
  record of a raw result has \<open>seeders = n\<close> exactly when the raw torznab seeders value
  is the number \<open>n\<close> and \<open>n\<close> is neither -1 nor 999; otherwise seeders is absent (not
  zero).  Raw 999 and -1 give absent, raw 42 gives 42, raw 0 gives 0, the string "42"
  and a result without torznab attributes give absent.
\<close>

theorem searchTorrents_seeders:
  "(\<exists>ks. set ks \<subseteq> set rs \<and> searchTorrents vih ext rs = map (toTorrent vih ext) ks)
   \<and> (\<forall>n. seeders (toTorrent vih ext r) = Some n \<longleftrightarrow>
            torznab_seeders r = JNum n \<and> n \<noteq> - 1 \<and> n \<noteq> 999)
   \<and> (seeders (toTorrent vih ext r) = None \<longleftrightarrow>
            (\<forall>n. torznab_seeders r = JNum n \<longrightarrow> n = - 1 \<or> n = 999))
   \<and> seeders (toTorrent vih ext (r\<lparr>torznab := Some (a\<lparr>torznab_attrs.seeders := JNum 999\<rparr>)\<rparr>)) = None
   \<and> seeders (toTorrent vih ext (r\<lparr>torznab := Some (a\<lparr>torznab_attrs.seeders := JNum (- 1)\<rparr>)\<rparr>)) = None
   \<and> seeders (toTorrent vih ext (r\<lparr>torznab := Some (a\<lparr>torznab_attrs.seeders := JNum 42\<rparr>)\<rparr>)) = Some 42
   \<and> seeders (toTorrent vih ext (r\<lparr>torznab := Some (a\<lparr>torznab_attrs.seeders := JNum 0\<rparr>)\<rparr>)) = Some 0
   \<and> seeders (toTorrent vih ext (r\<lparr>torznab := Some (a\<lparr>torznab_attrs.seeders := JStr ''42''\<rparr>)\<rparr>)) = None
   \<and> seeders (toTorrent vih ext (r\<lparr>torznab := None\<rparr>)) = None"
proof (intro conjI)
  show "\<exists>ks. set ks \<subseteq> set rs \<and> searchTorrents vih ext rs = map (toTorrent vih ext) ks"
    using kept_sub [of vih "{}" rs] searchTorrents_kept [of vih ext rs] by blast
  show "\<forall>n. seeders (toTorrent vih ext r) = Some n \<longleftrightarrow>
            torznab_seeders r = JNum n \<and> n \<noteq> - 1 \<and> n \<noteq> 999"
    by (auto simp: toTorrent_seeders split: jsval.splits)
  show "seeders (toTorrent vih ext r) = None \<longleftrightarrow>
            (\<forall>n. torznab_seeders r = JNum n \<longrightarrow> n = - 1 \<or> n = 999)"
    by (auto simp: toTorrent_seeders split: jsval.splits)
qed (simp_all add: toTorrent_seeders torznab_seeders_update, simp add: torznab_seeders_def)

text \<open>Seeders 42 is passed through, the sentinel 999 and a missing value are absent.\<close>

theorem searchTorrents_seeders_witness:
  "map seeders (searchTorrents validateInfoHash (\<lambda>m. []) [ex_by_hash, ex_by_magnet, ex_by_file])
     = [Some 42, None]
   \<and> torznab_seeders ex_by_hash = JNum 42
   \<and> torznab_seeders ex_by_magnet = JNum 999
   \<and> seeders (toTorrent validateInfoHash (\<lambda>m. []) ex_by_magnet) = None"
proof -
  note inst = searchTorrents_seeders [of "[ex_by_hash, ex_by_magnet, ex_by_file]" validateInfoHash
      "\<lambda>m. []" ex_by_hash]
  have raw: "torznab_seeders ex_by_hash = JNum 42" "torznab_seeders ex_by_magnet = JNum 999"
    "torznab_seeders ex_by_file = JUndefined"
    by (simp_all add: torznab_seeders_def ex_by_hash_def ex_by_magnet_def ex_by_file_def)
  from inst raw have s1: "seeders (toTorrent validateInfoHash (\<lambda>m. []) ex_by_hash) = Some 42"
    by simp
  have s2: "seeders (toTorrent validateInfoHash (\<lambda>m. []) ex_by_magnet) = None"
    using searchTorrents_seeders [of "[]" validateInfoHash "\<lambda>m. []" ex_by_magnet] raw by simp
  have s3: "seeders (toTorrent validateInfoHash (\<lambda>m. []) ex_by_file) = None"
    using searchTorrents_seeders [of "[]" validateInfoHash "\<lambda>m. []" ex_by_file] raw by simp
  have out: "searchTorrents validateInfoHash (\<lambda>m. []) [ex_by_hash, ex_by_magnet, ex_by_file]
      = [toTorrent validateInfoHash (\<lambda>m. []) ex_by_hash, toTorrent validateInfoHash (\<lambda>m. []) ex_by_file]"
    by (simp add: searchTorrents_kept ex_usable ex_keys ex_hash_def)
  show ?thesis by (simp add: out s1 s2 s3 raw)
qed

text \<open>
  Claim C9.  The tracker list is read from \<open>result.torznab.magneturl\<close> only.  A result
  whose magnet link (with a \<open>tr\<close> parameter) is in a torrent-file enclosure gets its
  hash from that link, but its \<open>sources\<close> is empty whatever
  \<open>extractTrackersFromMagnet\<close> computes; the same link in the magnet field is passed to
  \<open>extractTrackersFromMagnet\<close>.
\<close>

theorem searchTorrents_enclosure_magnet_sources:
  "searchTorrents validateInfoHash ext [ex_enclosure_magnet] =
     [\<lparr> hash = Some ex_hash, downloadUrl = None, sources = [], seeders = None,
        indexer = None, title = ''Release C'', type = ''torrent'' \<rparr>]
   \<and> magnetEnclosure ex_enclosure_magnet = Some ex_magnet
   \<and> torznab_magneturl ex_enclosure_magnet = None
   \<and> sources (toTorrent validateInfoHash ext ex_by_magnet) = ext ex_magnet"
proof -
  have c: "sources (toTorrent validateInfoHash ext ex_by_magnet) = ext ex_magnet"
    by (simp add: toTorrent_def torznab_magneturl_def ex_by_magnet_def truthy_def ex_magnet_def)
  have h: "extractInfoHash validateInfoHash ex_enclosure_magnet = Some ex_hash" by code_simp
  have m: "magnetEnclosure ex_enclosure_magnet = Some ex_magnet" by code_simp
  have u: "torrentEnclosure ex_enclosure_magnet = None" by code_simp
  have n: "torznab_magneturl ex_enclosure_magnet = None"
    by (simp add: torznab_magneturl_def ex_enclosure_magnet_def)
  have s: "torznab_seeders ex_enclosure_magnet = JUndefined"
    by (simp add: torznab_seeders_def ex_enclosure_magnet_def)
  have us: "usable validateInfoHash ex_enclosure_magnet"
    by (simp add: usable_def h truthy_def ex_hash_def)
  have t: "toTorrent validateInfoHash ext ex_enclosure_magnet =
     \<lparr> hash = Some ex_hash, downloadUrl = None, sources = [], seeders = None,
        indexer = None, title = ''Release C'', type = ''torrent'' \<rparr>"
    unfolding toTorrent_def h u n s by (simp add: truthy_def ex_enclosure_magnet_def)
  show ?thesis
    by (simp add: searchTorrents_kept us m n t c)
qed

section \<open>Properties of extractInfoHash\<close>

lemma toLowerCase_char_lower:
  "d \<in> set ''abcdef0123456789'' \<Longrightarrow> toLowerCase_char d = d"
proof -
  have "list_all (\<lambda>d. toLowerCase_char d = d) ''abcdef0123456789''"
    by (simp add: toLowerCase_char_def)
  then show "d \<in> set ''abcdef0123456789'' \<Longrightarrow> toLowerCase_char d = d"
    unfolding list_all_iff by blast
qed

lemma hex_ci_lower_idem:
  "hex_ci c \<Longrightarrow> toLowerCase_char (toLowerCase_char c) = toLowerCase_char c"
  unfolding hex_ci_def by (rule toLowerCase_char_lower)

lemma hex_ci_lower:
  assumes "hex_ci c"
  shows "hex_ci (toLowerCase_char c)"
proof -
  have "toLowerCase_char (toLowerCase_char c) = toLowerCase_char c"
    using assms by (rule hex_ci_lower_idem)
  with assms show ?thesis
    unfolding hex_ci_def by (simp only:)
qed

lemma validateInfoHash_lowered:
  assumes "length h = 40" and "list_all hex_ci h"
  shows "validateInfoHash (Some (toLowerCase h)) = Some (toLowerCase h)"
proof -
  have hex: "\<forall>c\<in>set h. hex_ci c"
    using assms(2) by (simp only: list_all_iff)
  have a: "list_all hex_ci (toLowerCase h)"
    unfolding toLowerCase_def list_all_iff using hex hex_ci_lower by auto
  have "map toLowerCase_char (map toLowerCase_char h) = map toLowerCase_char h"
    using hex hex_ci_lower_idem by (simp only: map_map map_eq_conv comp_def) blast
  then have b: "toLowerCase (toLowerCase h) = toLowerCase h"
    by (simp only: toLowerCase_def)
  have c: "length (toLowerCase h) = 40"
    using assms(1) by (simp only: toLowerCase_def length_map)
  show ?thesis
    unfolding validateInfoHash_def option.case using a b c by (simp only: simp_thms if_True)
qed

lemma validateInfoHash_rejects:
  "length c \<noteq> 40 \<or> \<not> list_all hex_ci c \<Longrightarrow> validateInfoHash (Some c) = None"
  unfolding validateInfoHash_def by (cases "length c = 40") simp_all

lemma lower_consts:
  "toLowerCase ''urn'' = ''urn''" "toLowerCase ''btih'' = ''btih''"
  "toLowerCase '':'' = '':''" "toLowerCase ''%3A'' = ''%3a''"
  by (simp_all add: toLowerCase_def toLowerCase_char_def)

lemma btih_here_Nil: "btih_here [] = None"
  by (simp add: btih_here_def ci_prefix_def)

lemma ci_prefix_append:
  assumes "toLowerCase a = toLowerCase p"
  shows "ci_prefix p (a @ s) = Some s"
proof -
  from assms have len: "length p = length a"
    unfolding toLowerCase_def by (metis length_map)
  have t: "take (length p) (a @ s) = a" and d: "drop (length p) (a @ s) = s"
    and l: "length p \<le> length (a @ s)"
    unfolding len by simp_all
  show ?thesis
    unfolding ci_prefix_def t d using l assms by (simp only: simp_thms if_True)
qed


lemma btih_sep_colon:
  assumes "toLowerCase b = '':''"
  shows "btih_sep (b @ s) = Some s"
proof -
  have "ci_prefix '':'' (b @ s) = Some s"
    using assms by (intro ci_prefix_append) (simp only: lower_consts)
  then show ?thesis by (simp add: btih_sep_def)
qed

lemma btih_sep_pct:
  assumes "toLowerCase b = ''%3a''"
  shows "btih_sep (b @ s) = Some s"
proof -
  from assms obtain x b' where b: "b = x # b'" and x: "toLowerCase_char x = CHR ''%''"
    unfolding toLowerCase_def by (cases b) simp_all
  have "toLowerCase (take (length '':'') (b @ s)) \<noteq> '':''"
    unfolding b using x by (simp add: toLowerCase_def)
  then have "ci_prefix '':'' (b @ s) = None"
    unfolding ci_prefix_def lower_consts by simp
  moreover have "ci_prefix ''%3A'' (b @ s) = Some s"
    using assms by (intro ci_prefix_append) (simp only: lower_consts)
  ultimately show ?thesis by (simp add: btih_sep_def)
qed

lemma btih_sep_either:
  "toLowerCase b = '':'' \<or> toLowerCase b = ''%3a'' \<Longrightarrow> btih_sep (b @ s) = Some s"
  using btih_sep_colon btih_sep_pct by blast

lemma btih_here_parts:
  assumes "toLowerCase u = ''urn''"
    and "toLowerCase s1 = '':'' \<or> toLowerCase s1 = ''%3a''"
    and "toLowerCase b = ''btih''"
    and "toLowerCase s2 = '':'' \<or> toLowerCase s2 = ''%3a''"
  shows "btih_here (u @ s1 @ b @ s2 @ s) =
           (if 40 \<le> length s \<and> list_all hex_ci (take 40 s) then Some (take 40 s) else None)"
proof -
  have p1: "ci_prefix ''urn'' (u @ s1 @ b @ s2 @ s) = Some (s1 @ b @ s2 @ s)"
    using assms(1) by (intro ci_prefix_append) (simp add: lower_consts)
  have p2: "btih_sep (s1 @ b @ s2 @ s) = Some (b @ s2 @ s)"
    using assms(2) by (rule btih_sep_either)
  have p3: "ci_prefix ''btih'' (b @ s2 @ s) = Some (s2 @ s)"
    using assms(3) by (intro ci_prefix_append) (simp add: lower_consts)
  have p4: "btih_sep (s2 @ s) = Some s"
    using assms(4) by (rule btih_sep_either)
  show ?thesis
    by (simp add: btih_here_def p1 p2 p3 p4)
qed

lemma ci_prefix_SomeD:
  assumes "ci_prefix p s = Some r"
  shows "\<exists>a. s = a @ r \<and> toLowerCase a = toLowerCase p"
proof -
  from assms have "length p \<le> length s" and "toLowerCase (take (length p) s) = toLowerCase p"
    and "r = drop (length p) s"
    by (auto simp: ci_prefix_def split: if_splits)
  then have "s = take (length p) s @ r \<and> toLowerCase (take (length p) s) = toLowerCase p"
    by simp
  then show ?thesis by blast
qed

lemma btih_sep_SomeD:
  assumes "btih_sep s = Some r"
  shows "\<exists>a. s = a @ r \<and> (toLowerCase a = '':'' \<or> toLowerCase a = ''%3a'')"
proof (cases "ci_prefix '':'' s")
  case None
  with assms have "ci_prefix ''%3A'' s = Some r" by (simp add: btih_sep_def)
  from ci_prefix_SomeD [OF this] show ?thesis by (auto simp: lower_consts)
next
  case (Some r')
  with assms have "ci_prefix '':'' s = Some r" by (simp add: btih_sep_def)
  from ci_prefix_SomeD [OF this] show ?thesis by (auto simp: lower_consts)
qed

lemma btih_here_SomeD:
  assumes "btih_here s = Some h"
  shows "\<exists>u s1 b s2 post. s = u @ s1 @ b @ s2 @ h @ post \<and> toLowerCase u = ''urn'' \<and>
           (toLowerCase s1 = '':'' \<or> toLowerCase s1 = ''%3a'') \<and> toLowerCase b = ''btih'' \<and>
           (toLowerCase s2 = '':'' \<or> toLowerCase s2 = ''%3a'') \<and>
           length h = 40 \<and> list_all hex_ci h"
proof -
  from assms obtain r1 r2 r3 r4 where 1: "ci_prefix ''urn'' s = Some r1"
    and 2: "btih_sep r1 = Some r2" and 3: "ci_prefix ''btih'' r2 = Some r3"
    and 4: "btih_sep r3 = Some r4"
    and 5: "40 \<le> length r4" "list_all hex_ci (take 40 r4)" "h = take 40 r4"
    by (auto simp: btih_here_def split: option.splits if_splits)
  from ci_prefix_SomeD [OF 1] obtain u where u: "s = u @ r1" "toLowerCase u = ''urn''"
    by (auto simp: lower_consts)
  from btih_sep_SomeD [OF 2] obtain s1 where s1: "r1 = s1 @ r2"
    "toLowerCase s1 = '':'' \<or> toLowerCase s1 = ''%3a''" by blast
  from ci_prefix_SomeD [OF 3] obtain b where b: "r2 = b @ r3" "toLowerCase b = ''btih''"
    by (auto simp: lower_consts)
  from btih_sep_SomeD [OF 4] obtain s2 where s2: "r3 = s2 @ r4"
    "toLowerCase s2 = '':'' \<or> toLowerCase s2 = ''%3a''" by blast
  have r4: "r4 = h @ drop 40 r4" using 5(3) by simp
  have len: "length h = 40" using 5(1,3) by simp
  have "s = u @ s1 @ b @ s2 @ h @ drop 40 r4"
    using u(1) s1(1) b(1) s2(1) r4 by simp
  with u(2) s1(2) b(2) s2(2) len 5(2,3) show ?thesis by blast
qed

lemma btih_match_SomeE:
  assumes "btih_match s = Some h"
  obtains pre r where "s = pre @ r" and "btih_here r = Some h"
  using assms
proof (induction s arbitrary: thesis)
  case Nil
  then show ?case by simp
next
  case (Cons c cs)
  show ?case
  proof (cases "btih_here (c # cs)")
    case None
    with Cons.prems(2) have "btih_match cs = Some h" by simp
    then obtain pre r where "cs = pre @ r" "btih_here r = Some h"
      using Cons.IH by blast
    with Cons.prems(1) [of "c # pre" r] show ?thesis by simp
  next
    case (Some h')
    with Cons.prems(2) have "btih_here (c # cs) = Some h" by simp
    with Cons.prems(1) [of "[]" "c # cs"] show ?thesis by simp
  qed
qed

lemma btih_match_hit: "btih_here r \<noteq> None \<Longrightarrow> btih_match (pre @ r) \<noteq> None"
proof (induction pre)
  case Nil
  then show ?case by (cases r) (auto split: option.splits)
next
  case (Cons c pre)
  then show ?case by (auto split: option.splits)
qed

text \<open>
  What the pattern captures: 40 hexadecimal characters that follow \<open>urn\<close>, a
  separator, \<open>btih\<close> and a separator (each separator \<open>:\<close> or \<open>%3A\<close>, letters in
  either case) somewhere in the string; and the pattern matches every string that holds
  such a part.
\<close>

lemma btih_match_captures:
  assumes "btih_match s = Some h"
  shows "\<exists>pre u s1 b s2 post. s = pre @ u @ s1 @ b @ s2 @ h @ post \<and> toLowerCase u = ''urn'' \<and>
           (toLowerCase s1 = '':'' \<or> toLowerCase s1 = ''%3a'') \<and> toLowerCase b = ''btih'' \<and>
           (toLowerCase s2 = '':'' \<or> toLowerCase s2 = ''%3a'') \<and>
           length h = 40 \<and> list_all hex_ci h"
proof -
  from assms obtain pre r where s: "s = pre @ r" and r: "btih_here r = Some h"
    by (rule btih_match_SomeE)
  from btih_here_SomeD [OF r] obtain u s1 b s2 post where
    "r = u @ s1 @ b @ s2 @ h @ post" "toLowerCase u = ''urn''"
    "toLowerCase s1 = '':'' \<or> toLowerCase s1 = ''%3a''" "toLowerCase b = ''btih''"
    "toLowerCase s2 = '':'' \<or> toLowerCase s2 = ''%3a''" "length h = 40" "list_all hex_ci h"
    by blast
  with s show ?thesis by blast
qed

lemma btih_match_accepts:
  assumes "toLowerCase u = ''urn''"
    and "toLowerCase s1 = '':'' \<or> toLowerCase s1 = ''%3a''"
    and "toLowerCase b = ''btih''"
    and "toLowerCase s2 = '':'' \<or> toLowerCase s2 = ''%3a''"
    and "length h = 40" and "list_all hex_ci h"
  shows "btih_match (pre @ u @ s1 @ b @ s2 @ h @ post) \<noteq> None"
proof -
  have "btih_here (u @ s1 @ b @ s2 @ h @ post) = Some h"
    using assms by (simp add: btih_here_parts)
  then have "btih_here (u @ s1 @ b @ s2 @ h @ post) \<noteq> None" by simp
  then show ?thesis by (rule btih_match_hit)
qed

lemma startsWith_iff: "startsWith s p \<longleftrightarrow> (\<exists>b. s = p @ b)"
  unfolding startsWith_def
  by (metis append_eq_conv_conj append_take_drop_id)

lemma str_includes_iff: "str_includes s p \<longleftrightarrow> (\<exists>a b. s = a @ p @ b)"
proof (induction s)
  case Nil
  then show ?case by simp
next
  case (Cons c cs)
  show ?case
  proof
    assume "str_includes (c # cs) p"
    then consider "startsWith (c # cs) p" | "str_includes cs p" by auto
    then show "\<exists>a b. c # cs = a @ p @ b"
    proof cases
      case 1
      then obtain b where "c # cs = p @ b" unfolding startsWith_iff by blast
      then have "c # cs = [] @ p @ b" by simp
      then show ?thesis by blast
    next
      case 2
      with Cons.IH obtain a b where "cs = a @ p @ b" by blast
      then have "c # cs = (c # a) @ p @ b" by simp
      then show ?thesis by blast
    qed
  next
    assume "\<exists>a b. c # cs = a @ p @ b"
    then obtain a b where ab: "c # cs = a @ p @ b" by blast
    show "str_includes (c # cs) p"
    proof (cases a)
      case Nil
      with ab have "startsWith (c # cs) p" unfolding startsWith_iff by auto
      then show ?thesis by simp
    next
      case (Cons x a')
      with ab have "cs = a' @ p @ b" by simp
      with Cons.IH have "str_includes cs p" by blast
      then show ?thesis by simp
    qed
  qed
qed

lemma find_first:
  "xs = es @ e # es' \<Longrightarrow> P e \<Longrightarrow> \<forall>x\<in>set es. \<not> P x \<Longrightarrow> find P xs = Some e"
  by (induction es arbitrary: xs) simp_all

lemma find_none: "\<forall>x\<in>set xs. \<not> P x \<Longrightarrow> find P xs = None"
  by (induction xs) simp_all

lemma toLowerCase_append: "toLowerCase (a @ b) = toLowerCase a @ toLowerCase b"
  by (simp add: toLowerCase_def)

lemma btih_urn_parts:
  assumes "btih_urn p"
  obtains u s1 b s2 where "p = u @ s1 @ b @ s2" and "toLowerCase u = ''urn''"
    and "toLowerCase s1 = '':'' \<or> toLowerCase s1 = ''%3a''" and "toLowerCase b = ''btih''"
    and "toLowerCase s2 = '':'' \<or> toLowerCase s2 = ''%3a''"
proof -
  have split: "\<exists>a b. p = a @ b \<and> toLowerCase a = x \<and> toLowerCase b = y"
    if "toLowerCase p = x @ y" for p x y
  proof -
    from that have "p = take (length x) p @ drop (length x) p \<and>
      toLowerCase (take (length x) p) = x \<and> toLowerCase (drop (length x) p) = y"
      unfolding toLowerCase_def by (simp add: take_map [symmetric] drop_map [symmetric])
    then show ?thesis by blast
  qed
  from assms consider "toLowerCase p = ''urn'' @ '':'' @ ''btih'' @ '':''"
    | "toLowerCase p = ''urn'' @ ''%3a'' @ ''btih'' @ '':''"
    | "toLowerCase p = ''urn'' @ '':'' @ ''btih'' @ ''%3a''"
    | "toLowerCase p = ''urn'' @ ''%3a'' @ ''btih'' @ ''%3a''"
    unfolding btih_urn_def by auto
  then obtain x y where l: "toLowerCase p = ''urn'' @ x @ ''btih'' @ y"
    and x: "x = '':'' \<or> x = ''%3a''" and y: "y = '':'' \<or> y = ''%3a''"
    by cases blast+
  from split [OF l] obtain u r1 where 1: "p = u @ r1" "toLowerCase u = ''urn''"
    "toLowerCase r1 = x @ ''btih'' @ y" by blast
  from split [OF 1(3)] obtain s1 r2 where 2: "r1 = s1 @ r2" "toLowerCase s1 = x"
    "toLowerCase r2 = ''btih'' @ y" by blast
  from split [OF 2(3)] obtain b s2 where 3: "r2 = b @ s2" "toLowerCase b = ''btih''"
    "toLowerCase s2 = y" by blast
  show ?thesis
    using that [of u s1 b s2] 1 2 3 x y by simp
qed

lemma btih_urn_of_parts:
  assumes "toLowerCase u = ''urn''"
    and "toLowerCase s1 = '':'' \<or> toLowerCase s1 = ''%3a''" and "toLowerCase b = ''btih''"
    and "toLowerCase s2 = '':'' \<or> toLowerCase s2 = ''%3a''"
  shows "btih_urn (u @ s1 @ b @ s2)"
  using assms unfolding btih_urn_def toLowerCase_append by auto

lemma btih_here_urn:
  assumes "btih_urn p"
  shows "btih_here (p @ s) =
           (if 40 \<le> length s \<and> list_all hex_ci (take 40 s) then Some (take 40 s) else None)"
proof -
  from assms obtain u s1 b s2 where p: "p = u @ s1 @ b @ s2" and l: "toLowerCase u = ''urn''"
    "toLowerCase s1 = '':'' \<or> toLowerCase s1 = ''%3a''" "toLowerCase b = ''btih''"
    "toLowerCase s2 = '':'' \<or> toLowerCase s2 = ''%3a''"
    by (rule btih_urn_parts)
  from btih_here_parts [OF l, of s] show ?thesis unfolding p by simp
qed

lemma btih_here_occurrence:
  assumes "btih_here s = Some h"
  shows "\<exists>p post. s = p @ h @ post \<and> btih_urn p \<and> length h = 40 \<and> list_all hex_ci h"
proof -
  from btih_here_SomeD [OF assms] obtain u s1 b s2 post where
    s: "s = u @ s1 @ b @ s2 @ h @ post" and l: "toLowerCase u = ''urn''"
    "toLowerCase s1 = '':'' \<or> toLowerCase s1 = ''%3a''" "toLowerCase b = ''btih''"
    "toLowerCase s2 = '':'' \<or> toLowerCase s2 = ''%3a''" and h: "length h = 40" "list_all hex_ci h"
    by blast
  have "btih_urn (u @ s1 @ b @ s2)" using l by (rule btih_urn_of_parts)
  moreover have "s = (u @ s1 @ b @ s2) @ h @ post" using s by simp
  ultimately show ?thesis using h by blast
qed

lemma btih_match_occurrence:
  assumes "btih_match m = Some h"
  shows "\<exists>pre p post. m = pre @ p @ h @ post \<and> btih_urn p \<and> length h = 40 \<and> list_all hex_ci h"
proof -
  from assms obtain pre r where m: "m = pre @ r" and r: "btih_here r = Some h"
    by (rule btih_match_SomeE)
  from btih_here_occurrence [OF r] m show ?thesis by blast
qed

lemma btih_match_first:
  assumes "btih_here r = Some h"
    and "\<forall>pre1 pre2. pre = pre1 @ pre2 \<and> pre2 \<noteq> [] \<longrightarrow> btih_here (pre2 @ r) = None"
  shows "btih_match (pre @ r) = Some h"
  using assms(2)
proof (induction pre)
  case Nil
  from assms(1) show ?case by (cases r) (simp_all add: btih_here_Nil)
next
  case (Cons c pre)
  have "btih_here ((c # pre) @ r) = None"
    using Cons.prems [rule_format, of "[]" "c # pre"] by simp
  moreover have "btih_match (pre @ r) = Some h"
  proof (rule Cons.IH, intro allI impI)
    fix pre1 pre2 assume "pre = pre1 @ pre2 \<and> pre2 \<noteq> []"
    then have "c # pre = (c # pre1) @ pre2 \<and> pre2 \<noteq> []" by simp
    then show "btih_here (pre2 @ r) = None" using Cons.prems by blast
  qed
  ultimately show ?case by simp
qed

text \<open>The leftmost occurrence is the one captured.\<close>

lemma btih_match_leftmost:
  assumes "btih_urn p" and "length h = 40" and "list_all hex_ci h"
    and first: "\<forall>pre' p' h' post'. pre' @ p' @ h' @ post' = pre @ p @ h @ post \<and> btih_urn p' \<and>
            length h' = 40 \<and> list_all hex_ci h' \<longrightarrow> length pre \<le> length pre'"
  shows "btih_match (pre @ p @ h @ post) = Some h"
proof (rule btih_match_first)
  show "btih_here (p @ h @ post) = Some h"
    using assms(1-3) by (simp add: btih_here_urn)
next
  show "\<forall>pre1 pre2. pre = pre1 @ pre2 \<and> pre2 \<noteq> [] \<longrightarrow> btih_here (pre2 @ p @ h @ post) = None"
  proof (intro allI impI)
    fix pre1 pre2 assume s: "pre = pre1 @ pre2 \<and> pre2 \<noteq> []"
    show "btih_here (pre2 @ p @ h @ post) = None"
    proof (rule ccontr)
      assume "btih_here (pre2 @ p @ h @ post) \<noteq> None"
      then obtain h' where "btih_here (pre2 @ p @ h @ post) = Some h'" by blast
      from btih_here_occurrence [OF this] obtain p' post' where
        o: "pre2 @ p @ h @ post = p' @ h' @ post'" "btih_urn p'" "length h' = 40" "list_all hex_ci h'"
        by blast
      from o(1) s have "pre1 @ p' @ h' @ post' = pre @ p @ h @ post" by simp
      with first o(2-4) have "length pre \<le> length pre1" by blast
      with s show False by simp
    qed
  qed
qed

lemma btih_match_no_occurrence:
  assumes "\<forall>pre p cand. m = pre @ p @ cand \<and> btih_urn p \<longrightarrow>
             length cand < 40 \<or> \<not> list_all hex_ci (take 40 cand)"
  shows "btih_match m = None"
proof (rule ccontr)
  assume "btih_match m \<noteq> None"
  then obtain h where "btih_match m = Some h" by blast
  from btih_match_occurrence [OF this] obtain pre p post where
    o: "m = pre @ p @ h @ post" "btih_urn p" "length h = 40" "list_all hex_ci h" by blast
  from assms o(1,2) have "length (h @ post) < 40 \<or> \<not> list_all hex_ci (take 40 (h @ post))"
    by blast
  with o(3,4) show False by simp
qed

lemma btih_match_some_occurrence:
  assumes "btih_urn p" and "length h = 40" and "list_all hex_ci h"
  shows "\<exists>h'. btih_match (pre @ p @ h @ post) = Some h' \<and> length h' = 40 \<and> list_all hex_ci h'"
proof -
  have "btih_here (p @ h @ post) = Some h"
    using assms by (simp add: btih_here_urn)
  then have "btih_here (p @ h @ post) \<noteq> None" by simp
  then have "btih_match (pre @ p @ h @ post) \<noteq> None" by (rule btih_match_hit)
  then obtain h' where h': "btih_match (pre @ p @ h @ post) = Some h'" by blast
  from btih_match_occurrence [OF h'] h' show ?thesis by blast
qed

text \<open>Discharging the two conditions on a given string, by running the matcher.\<close>

lemma btih_free_first:
  assumes "btih_free pre r" and "pre' @ p' @ h' @ post' = pre @ r"
    and "btih_urn p'" and "length h' = 40" and "list_all hex_ci h'"
  shows "length pre \<le> length pre'"
  using assms(1,2)
proof (induction pre arbitrary: pre')
  case Nil
  then show ?case by simp
next
  case (Cons c pre)
  have here: "btih_here (p' @ h' @ post') = Some h'"
    using assms(3-5) by (simp add: btih_here_urn)
  show ?case
  proof (cases pre')
    case Nil
    with Cons.prems(2) here have "btih_here (c # pre @ r) = Some h'" by simp
    with Cons.prems(1) show ?thesis by simp
  next
    case (Cons x pre'')
    with Cons.prems(2) have "pre'' @ p' @ h' @ post' = pre @ r" by simp
    moreover from Cons.prems(1) have "btih_free pre r" by simp
    ultimately have "length pre \<le> length pre''" using Cons.IH by blast
    with Cons show ?thesis by simp
  qed
qed

lemma btih_match_None_occurrence:
  assumes "btih_match m = None" and "m = pre @ p @ cand" and "btih_urn p"
  shows "length cand < 40 \<or> \<not> list_all hex_ci (take 40 cand)"
proof (rule ccontr)
  assume "\<not> (length cand < 40 \<or> \<not> list_all hex_ci (take 40 cand))"
  then have "btih_here (p @ cand) \<noteq> None"
    using assms(3) by (simp add: btih_here_urn)
  then have "btih_match (pre @ p @ cand) \<noteq> None" by (rule btih_match_hit)
  with assms(1,2) show False by simp
qed

lemma extractInfoHash_field:
  "truthy (torznab_infohash r) \<Longrightarrow> extractInfoHash vih r = vih (torznab_infohash r)"
  by (simp add: extractInfoHash_def js_or_def)

lemma extractInfoHash_magnet:
  "\<not> truthy (torznab_infohash r) \<Longrightarrow>
   extractInfoHash vih r =
     vih (case js_or (torznab_magneturl r) (magnetEnclosure r) of
            None \<Rightarrow> None | Some m \<Rightarrow> map_option toLowerCase (btih_match m))"
  by (simp add: extractInfoHash_def js_or_def)

lemma magnetEnclosure_first:
  assumes "enclosure r = es @ e # es'"
    and "enclosure_entry.type e = ''application/x-bittorrent''"
    and "url e = a @ ''magnet:'' @ b"
    and "\<forall>x\<in>set es. \<not> (enclosure_entry.type x = ''application/x-bittorrent'' \<and>
                        (\<exists>u v. url x = u @ ''magnet:'' @ v))"
  shows "magnetEnclosure r = Some (url e)"
proof -
  have "find (\<lambda>e. enclosure_entry.type e = ''application/x-bittorrent''
                 \<and> str_includes (url e) ''magnet:'') (enclosure r) = Some e"
    using assms by (intro find_first [where es = es and es' = es']) (auto simp: str_includes_iff)
  then show ?thesis by (simp add: magnetEnclosure_def)
qed

lemma magnetEnclosure_none:
  assumes "\<forall>x\<in>set (enclosure r). \<not> (enclosure_entry.type x = ''application/x-bittorrent'' \<and>
                        (\<exists>u v. url x = u @ ''magnet:'' @ v))"
  shows "magnetEnclosure r = None"
proof -
  have "find (\<lambda>e. enclosure_entry.type e = ''application/x-bittorrent''
                 \<and> str_includes (url e) ''magnet:'') (enclosure r) = None"
    using assms by (intro find_none) (auto simp: str_includes_iff)
  then show ?thesis by (simp add: magnetEnclosure_def)
qed

lemma no_torznab_source:
  assumes "torznab r = None \<or> torznab r = Some t \<and> \<not> truthy (infohash t) \<and> \<not> truthy (magneturl t)"
  shows "\<not> truthy (torznab_infohash r)" and "\<not> truthy (torznab_magneturl r)"
  using assms by (auto simp: torznab_infohash_def torznab_magneturl_def truthy_def)

lemma magnet_source:
  assumes "torznab r = Some t \<and> \<not> truthy (infohash t) \<and> magneturl t = Some m \<and> m \<noteq> []
        \<or> (torznab r = None \<or> torznab r = Some t \<and> \<not> truthy (infohash t) \<and> \<not> truthy (magneturl t)) \<and>
          enclosure r = es @ e # es' \<and> enclosure_entry.type e = ''application/x-bittorrent'' \<and>
          url e = m \<and> m = a @ ''magnet:'' @ b \<and>
          (\<forall>x\<in>set es. \<not> (enclosure_entry.type x = ''application/x-bittorrent'' \<and>
                           (\<exists>u v. url x = u @ ''magnet:'' @ v)))"
  shows "extractInfoHash vih r = vih (map_option toLowerCase (btih_match m))"
  using assms
proof (elim disjE)
  assume a: "torznab r = Some t \<and> \<not> truthy (infohash t) \<and> magneturl t = Some m \<and> m \<noteq> []"
  then have "\<not> truthy (torznab_infohash r)" and "js_or (torznab_magneturl r) (magnetEnclosure r) = Some m"
    by (simp_all add: torznab_infohash_def torznab_magneturl_def js_or_def truthy_def)
  then show ?thesis by (simp add: extractInfoHash_magnet)
next
  assume a: "(torznab r = None \<or> torznab r = Some t \<and> \<not> truthy (infohash t) \<and> \<not> truthy (magneturl t)) \<and>
          enclosure r = es @ e # es' \<and> enclosure_entry.type e = ''application/x-bittorrent'' \<and>
          url e = m \<and> m = a @ ''magnet:'' @ b \<and>
          (\<forall>x\<in>set es. \<not> (enclosure_entry.type x = ''application/x-bittorrent'' \<and>
                           (\<exists>u v. url x = u @ ''magnet:'' @ v)))"
  then have n: "\<not> truthy (torznab_infohash r)" "\<not> truthy (torznab_magneturl r)"
    using no_torznab_source [of r t] by blast+
  from a have "magnetEnclosure r = Some (url e)"
    by (intro magnetEnclosure_first [where es = es and es' = es' and a = a and b = b]) simp_all
  with a n have "js_or (torznab_magneturl r) (magnetEnclosure r) = Some m"
    by (simp add: js_or_def)
  with n show ?thesis by (simp add: extractInfoHash_magnet)
qed

text \<open>
  Claim C4.  \<open>extractInfoHash\<close> reads the first of three sources.  A non-empty
  \<open>torznab.infohash\<close> is handed to \<open>validateInfoHash\<close> as it is, whatever the
  other sources hold.  Otherwise the magnet link \<open>m\<close> is the non-empty
  \<open>torznab.magneturl\<close>, or, when that is absent or empty, the URL of the first
  enclosure of type \<open>application/x-bittorrent\<close> whose URL contains \<open>magnet:\<close>,
  and \<open>validateInfoHash\<close> receives the lower-cased capture of the pattern in \<open>m\<close>.
  With no such attribute and no such enclosure it receives nothing.  With the validator of
  the spec: when \<open>m\<close> holds \<open>urn:btih:\<close> (each colon plain or \<open>%3A\<close>, letters in
  either case) followed by 40 hexadecimal characters, the result is such a hash of
  \<open>m\<close> in lower case, and it is the hash of the leftmost such place; when every
  \<open>urn:btih:\<close> in \<open>m\<close> is followed by fewer than 40 characters, or by a
  non-hexadecimal character among the next 40, there is no hash; and a non-empty
  \<open>infohash\<close> attribute that is not 40 hexadecimal characters gives no hash.
\<close>

theorem extractInfoHash_priority:
  "(torznab r = Some t \<and> infohash t = Some c \<and> c \<noteq> [] \<longrightarrow>
      extractInfoHash vih r = vih (Some c) \<and>
      (length c \<noteq> 40 \<or> \<not> list_all hex_ci c \<longrightarrow> extractInfoHash validateInfoHash r = None))
   \<and> ((torznab r = None \<or> torznab r = Some t \<and> \<not> truthy (infohash t) \<and> \<not> truthy (magneturl t)) \<and>
       (\<forall>x\<in>set (enclosure r). \<not> (enclosure_entry.type x = ''application/x-bittorrent'' \<and>
                                  (\<exists>u v. url x = u @ ''magnet:'' @ v))) \<longrightarrow>
      extractInfoHash vih r = vih None)
   \<and> ((torznab r = Some t \<and> \<not> truthy (infohash t) \<and> magneturl t = Some m \<and> m \<noteq> []
        \<or> (torznab r = None \<or> torznab r = Some t \<and> \<not> truthy (infohash t) \<and> \<not> truthy (magneturl t)) \<and>
          enclosure r = es @ e # es' \<and> enclosure_entry.type e = ''application/x-bittorrent'' \<and>
          url e = m \<and> m = a @ ''magnet:'' @ b \<and>
          (\<forall>x\<in>set es. \<not> (enclosure_entry.type x = ''application/x-bittorrent'' \<and>
                           (\<exists>u v. url x = u @ ''magnet:'' @ v)))) \<longrightarrow>
      extractInfoHash vih r = vih (map_option toLowerCase (btih_match m)) \<and>
      (m = pre @ p @ h @ post \<and> btih_urn p \<and> length h = 40 \<and> list_all hex_ci h \<longrightarrow>
         (\<exists>h'. extractInfoHash validateInfoHash r = Some (toLowerCase h') \<and>
               length h' = 40 \<and> list_all hex_ci h' \<and>
               (\<exists>pre' p' post'. m = pre' @ p' @ h' @ post' \<and> btih_urn p')) \<and>
         ((\<forall>pre' p' h' post'. pre' @ p' @ h' @ post' = m \<and> btih_urn p' \<and> length h' = 40 \<and>
              list_all hex_ci h' \<longrightarrow> length pre \<le> length pre') \<longrightarrow>
          extractInfoHash validateInfoHash r = Some (toLowerCase h))) \<and>
      ((\<forall>pre' p' cand. m = pre' @ p' @ cand \<and> btih_urn p' \<longrightarrow>
           length cand < 40 \<or> \<not> list_all hex_ci (take 40 cand)) \<longrightarrow>
       extractInfoHash validateInfoHash r = None))"
proof (intro conjI impI)
  assume a: "torznab r = Some t \<and> infohash t = Some c \<and> c \<noteq> []"
  then have i: "torznab_infohash r = Some c" by (simp add: torznab_infohash_def)
  with a have "truthy (torznab_infohash r)" by (simp add: truthy_def)
  then have f: "extractInfoHash vih r = vih (torznab_infohash r)" for vih
    by (rule extractInfoHash_field)
  from f i show "extractInfoHash vih r = vih (Some c)" by simp
  assume "length c \<noteq> 40 \<or> \<not> list_all hex_ci c"
  then have "validateInfoHash (Some c) = None" by (rule validateInfoHash_rejects)
  with f i show "extractInfoHash validateInfoHash r = None" by simp
next
  assume a: "(torznab r = None \<or> torznab r = Some t \<and> \<not> truthy (infohash t) \<and> \<not> truthy (magneturl t)) \<and>
       (\<forall>x\<in>set (enclosure r). \<not> (enclosure_entry.type x = ''application/x-bittorrent'' \<and>
                                  (\<exists>u v. url x = u @ ''magnet:'' @ v)))"
  then have n: "\<not> truthy (torznab_infohash r)" "\<not> truthy (torznab_magneturl r)"
    using no_torznab_source [of r t] by blast+
  from a have "magnetEnclosure r = None" by (intro magnetEnclosure_none) blast
  with n show "extractInfoHash vih r = vih None"
    by (simp add: extractInfoHash_magnet js_or_def)
next
  assume s: "torznab r = Some t \<and> \<not> truthy (infohash t) \<and> magneturl t = Some m \<and> m \<noteq> []
        \<or> (torznab r = None \<or> torznab r = Some t \<and> \<not> truthy (infohash t) \<and> \<not> truthy (magneturl t)) \<and>
          enclosure r = es @ e # es' \<and> enclosure_entry.type e = ''application/x-bittorrent'' \<and>
          url e = m \<and> m = a @ ''magnet:'' @ b \<and>
          (\<forall>x\<in>set es. \<not> (enclosure_entry.type x = ''application/x-bittorrent'' \<and>
                           (\<exists>u v. url x = u @ ''magnet:'' @ v)))"
  then have x: "extractInfoHash vih r = vih (map_option toLowerCase (btih_match m))" for vih
    by (rule magnet_source)
  show "extractInfoHash vih r = vih (map_option toLowerCase (btih_match m))" by (rule x)
  {
    assume o: "m = pre @ p @ h @ post \<and> btih_urn p \<and> length h = 40 \<and> list_all hex_ci h"
    then obtain h' where h': "btih_match m = Some h'" "length h' = 40" "list_all hex_ci h'"
      using btih_match_some_occurrence [of p h pre post] by blast
    from btih_match_occurrence [OF h'(1)] have "\<exists>pre' p' post'. m = pre' @ p' @ h' @ post' \<and> btih_urn p'"
      by blast
    moreover have "extractInfoHash validateInfoHash r = Some (toLowerCase h')"
      using x [of validateInfoHash] h' by (simp add: validateInfoHash_lowered)
    ultimately show "\<exists>h'. extractInfoHash validateInfoHash r = Some (toLowerCase h') \<and>
               length h' = 40 \<and> list_all hex_ci h' \<and>
               (\<exists>pre' p' post'. m = pre' @ p' @ h' @ post' \<and> btih_urn p')"
      using h'(2,3) by blast
    assume "\<forall>pre' p' h' post'. pre' @ p' @ h' @ post' = m \<and> btih_urn p' \<and> length h' = 40 \<and>
              list_all hex_ci h' \<longrightarrow> length pre \<le> length pre'"
    with o have "btih_match (pre @ p @ h @ post) = Some h"
      by (intro btih_match_leftmost) simp_all
    with o show "extractInfoHash validateInfoHash r = Some (toLowerCase h)"
      using x [of validateInfoHash] by (simp add: validateInfoHash_lowered)
  }
  assume "\<forall>pre' p' cand. m = pre' @ p' @ cand \<and> btih_urn p' \<longrightarrow>
           length cand < 40 \<or> \<not> list_all hex_ci (take 40 cand)"
  then have "btih_match m = None" by (rule btih_match_no_occurrence)
  then show "extractInfoHash validateInfoHash r = None"
    using x [of validateInfoHash] by (simp add: validateInfoHash_def)
qed

lemma ex_hash_upper:
  "toLowerCase ''C12FE1C06BBA254A9DC9F519B335AA7C1367A88A'' = ex_hash"
  "list_all hex_ci ''C12FE1C06BBA254A9DC9F519B335AA7C1367A88A''"
  "validateInfoHash (Some ex_hash) = Some ex_hash"
  by (simp_all add: toLowerCase_def toLowerCase_char_def ex_hash_def hex_ci_def validateInfoHash_def)

lemma ex_btih_urn: "btih_urn ''urn:btih:''" "btih_urn ''urn%3Abtih%3A''"
  by (simp_all add: btih_urn_def toLowerCase_def toLowerCase_char_def)

lemma includes_magnet:
  "(\<exists>a b. s = a @ CHR ''m'' # CHR ''a'' # CHR ''g'' # CHR ''n'' # CHR ''e'' # CHR ''t'' # CHR '':'' # b)
     = str_includes s ''magnet:''"
  using str_includes_iff [of s "''magnet:''"] by simp

lemma ex_magnet_dn_free:
  "btih_free ''magnet:?dn=Ubuntu+Linux&xt=''
     (''urn:btih:'' @ ''C12FE1C06BBA254A9DC9F519B335AA7C1367A88A'' @
      ''&tr=udp%3A%2F%2Ftracker.example.org%3A1337'')"
  by code_simp

lemma ex_magnet_dn_match:
  "btih_match ex_magnet_dn = Some ''C12FE1C06BBA254A9DC9F519B335AA7C1367A88A''"
  by code_simp

lemma ex_magnet_no_match:
  "btih_match ex_magnet_nonhex = None"
  "btih_match ex_magnet_short = None"
  by code_simp+

text \<open>
  A hash attribute beside a magnet attribute and a magnet enclosure that carry another
  hash; an empty hash attribute, a magnet attribute with an upper-case hash after a
  display name, and a magnet enclosure that carries another hash; no attributes, and a
  magnet link in the third enclosure, after one of another type and a torrent file, and
  before a second magnet enclosure; a hash attribute of 39 characters beside a valid
  magnet attribute; a magnet attribute whose candidate starts with \<open>g\<close>; an empty
  magnet attribute and a magnet enclosure whose candidate has 39 characters; and no
  attributes, with a magnet link only in an enclosure of another type.  Last, the third
  result again with a validator that returns what it is given: the lower-casing is done
  before the validator.
\<close>

theorem extractInfoHash_priority_witness:
  "extractInfoHash validateInfoHash ex_field_first = Some ex_hash
   \<and> extractInfoHash validateInfoHash ex_magneturl_first = Some ex_hash
   \<and> extractInfoHash validateInfoHash ex_enclosure_first = Some ex_hash
   \<and> extractInfoHash validateInfoHash ex_short_hash = None
   \<and> extractInfoHash validateInfoHash ex_nonhex_first = None
   \<and> extractInfoHash validateInfoHash ex_short_enclosure = None
   \<and> extractInfoHash validateInfoHash ex_no_source = None
   \<and> extractInfoHash (\<lambda>h. h) ex_enclosure_first = Some ex_hash"
proof (intro conjI)
  note t = extractInfoHash_priority [where r = ex_field_first and vih = validateInfoHash
      and t = "\<lparr> infohash = Some ex_hash, magneturl = Some ex_magnet2,
                 torznab_attrs.seeders = JUndefined \<rparr>" and c = ex_hash]
  have "extractInfoHash validateInfoHash ex_field_first = validateInfoHash (Some ex_hash)"
    apply (rule t [THEN conjunct1, THEN mp, THEN conjunct1])
    apply (simp add: ex_field_first_def ex_hash_def)
    done
  then show "extractInfoHash validateInfoHash ex_field_first = Some ex_hash"
    by (simp only: ex_hash_upper)
next
  note t = extractInfoHash_priority [where r = ex_magneturl_first
      and t = "\<lparr> infohash = Some [], magneturl = Some ex_magnet_dn,
                 torznab_attrs.seeders = JUndefined \<rparr>"
      and m = ex_magnet_dn and es = "[]" and es' = "[]" and a = "[]" and b = "[]"
      and e = "\<lparr> enclosure_entry.type = [], url = [] \<rparr>"
      and pre = "''magnet:?dn=Ubuntu+Linux&xt=''" and p = "''urn:btih:''"
      and h = "''C12FE1C06BBA254A9DC9F519B335AA7C1367A88A''"
      and post = "''&tr=udp%3A%2F%2Ftracker.example.org%3A1337''"]
  have "extractInfoHash validateInfoHash ex_magneturl_first =
      Some (toLowerCase ''C12FE1C06BBA254A9DC9F519B335AA7C1367A88A'')"
    apply (rule t [THEN conjunct2, THEN conjunct2, THEN mp, THEN conjunct2, THEN conjunct1,
          THEN mp, THEN conjunct2, THEN mp])
    subgoal by (simp add: ex_magneturl_first_def truthy_def ex_magnet_dn_def)
    subgoal
      apply (intro conjI)
         apply (simp add: ex_magnet_dn_def)
        apply (rule ex_btih_urn(1))
       apply simp
      apply (rule ex_hash_upper(2))
      done
    subgoal
      apply (intro allI impI, elim conjE)
      apply (rule btih_free_first [OF ex_magnet_dn_free])
      apply (simp_all add: ex_magnet_dn_def)
      done
    done
  then show "extractInfoHash validateInfoHash ex_magneturl_first = Some ex_hash"
    by (simp only: ex_hash_upper)
next
  note t = extractInfoHash_priority [where r = ex_enclosure_first
      and m = ex_magnet_dn
      and es = "[\<lparr> enclosure_entry.type = ''application/x-nzb'', url = ex_magnet2 \<rparr>,
                 \<lparr> enclosure_entry.type = ''application/x-bittorrent'',
                   url = ''https://example.com/i.torrent'' \<rparr>]"
      and e = "\<lparr> enclosure_entry.type = ''application/x-bittorrent'', url = ex_magnet_dn \<rparr>"
      and es' = "[\<lparr> enclosure_entry.type = ''application/x-bittorrent'', url = ex_magnet2 \<rparr>]"
      and a = "[]" and b = "''?dn=Ubuntu+Linux&xt=urn:btih:C12FE1C06BBA254A9DC9F519B335AA7C1367A88A&tr=udp%3A%2F%2Ftracker.example.org%3A1337''"
      and t = "\<lparr> infohash = None, magneturl = None, torznab_attrs.seeders = JUndefined \<rparr>"
      and pre = "''magnet:?dn=Ubuntu+Linux&xt=''" and p = "''urn:btih:''"
      and h = "''C12FE1C06BBA254A9DC9F519B335AA7C1367A88A''"
      and post = "''&tr=udp%3A%2F%2Ftracker.example.org%3A1337''"]
  have "extractInfoHash validateInfoHash ex_enclosure_first =
      Some (toLowerCase ''C12FE1C06BBA254A9DC9F519B335AA7C1367A88A'')"
    apply (rule t [THEN conjunct2, THEN conjunct2, THEN mp, THEN conjunct2, THEN conjunct1,
          THEN mp, THEN conjunct2, THEN mp])
    subgoal
      by (simp add: ex_enclosure_first_def ex_magnet_dn_def includes_magnet
          startsWith_def)
    subgoal
      apply (intro conjI)
         apply (simp add: ex_magnet_dn_def)
        apply (rule ex_btih_urn(1))
       apply simp
      apply (rule ex_hash_upper(2))
      done
    subgoal
      apply (intro allI impI, elim conjE)
      apply (rule btih_free_first [OF ex_magnet_dn_free])
      apply (simp_all add: ex_magnet_dn_def)
      done
    done
  then show "extractInfoHash validateInfoHash ex_enclosure_first = Some ex_hash"
    by (simp only: ex_hash_upper)
next
  note t = extractInfoHash_priority [where r = ex_short_hash and vih = validateInfoHash
      and t = "\<lparr> infohash = Some ''c12fe1c06bba254a9dc9f519b335aa7c1367a88'',
                 magneturl = Some ex_magnet, torznab_attrs.seeders = JUndefined \<rparr>"
      and c = "''c12fe1c06bba254a9dc9f519b335aa7c1367a88''"]
  show "extractInfoHash validateInfoHash ex_short_hash = None"
    apply (rule t [THEN conjunct1, THEN mp, THEN conjunct2, THEN mp])
    apply (simp_all add: ex_short_hash_def)
    done
next
  note t = extractInfoHash_priority [where r = ex_nonhex_first
      and t = "\<lparr> infohash = None, magneturl = Some ex_magnet_nonhex,
                 torznab_attrs.seeders = JUndefined \<rparr>"
      and m = ex_magnet_nonhex and es = "[]" and es' = "[]" and a = "[]" and b = "[]"
      and e = "\<lparr> enclosure_entry.type = [], url = [] \<rparr>"]
  show "extractInfoHash validateInfoHash ex_nonhex_first = None"
    apply (rule t [THEN conjunct2, THEN conjunct2, THEN mp, THEN conjunct2, THEN conjunct2, THEN mp])
    subgoal by (simp add: ex_nonhex_first_def truthy_def ex_magnet_nonhex_def)
    subgoal
      apply (intro allI impI, elim conjE)
      apply (rule btih_match_None_occurrence [OF ex_magnet_no_match(1)])
      apply assumption+
      done
    done
next
  note t = extractInfoHash_priority [where r = ex_short_enclosure
      and t = "\<lparr> infohash = None, magneturl = Some [], torznab_attrs.seeders = JUndefined \<rparr>"
      and m = ex_magnet_short and es = "[]" and es' = "[]" and a = "[]"
      and b = "''?dn=Ubuntu+Linux&xt=urn:btih:c12fe1c06bba254a9dc9f519b335aa7c1367a88&tr=udp%3A%2F%2Ftracker.example.org%3A1337''"
      and e = "\<lparr> enclosure_entry.type = ''application/x-bittorrent'', url = ex_magnet_short \<rparr>"]
  show "extractInfoHash validateInfoHash ex_short_enclosure = None"
    apply (rule t [THEN conjunct2, THEN conjunct2, THEN mp, THEN conjunct2, THEN conjunct2, THEN mp])
    subgoal by (simp add: ex_short_enclosure_def truthy_def ex_magnet_short_def)
    subgoal
      apply (intro allI impI, elim conjE)
      apply (rule btih_match_None_occurrence [OF ex_magnet_no_match(2)])
      apply assumption+
      done
    done
next
  note t = extractInfoHash_priority [where r = ex_no_source and vih = validateInfoHash
      and t = "\<lparr> infohash = None, magneturl = None, torznab_attrs.seeders = JUndefined \<rparr>"]
  have "extractInfoHash validateInfoHash ex_no_source = validateInfoHash None"
    apply (rule t [THEN conjunct2, THEN conjunct1, THEN mp])
    apply (simp add: ex_no_source_def ex_magnet2_def includes_magnet startsWith_def)
    done
  then show "extractInfoHash validateInfoHash ex_no_source = None"
    by (simp add: validateInfoHash_def)
next
  note t = extractInfoHash_priority [where r = ex_enclosure_first and vih = "\<lambda>h. h"
      and m = ex_magnet_dn
      and es = "[\<lparr> enclosure_entry.type = ''application/x-nzb'', url = ex_magnet2 \<rparr>,
                 \<lparr> enclosure_entry.type = ''application/x-bittorrent'',
                   url = ''https://example.com/i.torrent'' \<rparr>]"
      and e = "\<lparr> enclosure_entry.type = ''application/x-bittorrent'', url = ex_magnet_dn \<rparr>"
      and es' = "[\<lparr> enclosure_entry.type = ''application/x-bittorrent'', url = ex_magnet2 \<rparr>]"
      and a = "[]" and b = "''?dn=Ubuntu+Linux&xt=urn:btih:C12FE1C06BBA254A9DC9F519B335AA7C1367A88A&tr=udp%3A%2F%2Ftracker.example.org%3A1337''"
      and t = "\<lparr> infohash = None, magneturl = None, torznab_attrs.seeders = JUndefined \<rparr>"]
  have "extractInfoHash (\<lambda>h. h) ex_enclosure_first =
      map_option toLowerCase (btih_match ex_magnet_dn)"
    apply (rule t [THEN conjunct2, THEN conjunct2, THEN mp, THEN conjunct1])
    apply (simp add: ex_enclosure_first_def ex_magnet_dn_def includes_magnet startsWith_def)
    done
  then show "extractInfoHash (\<lambda>h. h) ex_enclosure_first = Some ex_hash"
    by (simp only: ex_magnet_dn_match option.map ex_hash_upper)
qed

section \<open>Properties of IdParser.parse\<close>

lemma colon_digits_SomeD:
  assumes "colon_digits s = Some (d, r)"
  shows "d \<noteq> [] \<and> list_all is_digit d \<and> s = CHR '':'' # d @ r"
proof (cases s)
  case Nil
  with assms show ?thesis by (simp add: colon_digits_def)
next
  case (Cons c cs)
  with assms have c: "c = CHR '':''" and d: "d = takeWhile is_digit cs"
    and r: "r = dropWhile is_digit cs" and ne: "takeWhile is_digit cs \<noteq> []"
    by (auto simp: colon_digits_def split: if_splits)
  have "list_all is_digit (takeWhile is_digit cs)"
    by (simp add: list_all_iff) (meson set_takeWhileD)
  with c d r ne Cons show ?thesis by simp
qed

lemma match_tail_SomeD:
  assumes "match_tail t i r = Some g"
  shows "g_id g = i \<and> g_season g \<noteq> Some [] \<and> g_episode g \<noteq> Some []
       \<and> (t = NoTail \<longrightarrow> g_episode g = None)
       \<and> (t \<noteq> SeasonEpisodeTail \<longrightarrow> g_season g = None)"
proof (cases r)
  case Nil
  with assms show ?thesis by auto
next
  case (Cons c cs)
  show ?thesis
  proof (cases t)
    case NoTail
    with assms Cons show ?thesis by simp
  next
    case EpisodeTail
    with assms Cons obtain e where cd: "colon_digits (c # cs) = Some (e, [])"
      and g: "g = \<lparr> g_id = i, g_season = None, g_episode = Some e \<rparr>"
      by (auto split: option.splits prod.splits list.splits)
    from colon_digits_SomeD [OF cd] g EpisodeTail show ?thesis by simp
  next
    case SeasonEpisodeTail
    with assms Cons obtain s r' e where cd: "colon_digits (c # cs) = Some (s, r')"
      and cd': "colon_digits r' = Some (e, [])"
      and g: "g = \<lparr> g_id = i, g_season = Some s, g_episode = Some e \<rparr>"
      by (auto split: option.splits prod.splits list.splits)
    from colon_digits_SomeD [OF cd] colon_digits_SomeD [OF cd'] g SeasonEpisodeTail show ?thesis by simp
  qed
qed

lemma match_rest_SomeD:
  assumes "match_rest cl t s = Some g"
  shows "g_id g \<noteq> [] \<and> g_season g \<noteq> Some [] \<and> g_episode g \<noteq> Some []
       \<and> (t = NoTail \<longrightarrow> g_episode g = None)
       \<and> (t \<noteq> SeasonEpisodeTail \<longrightarrow> g_season g = None)"
  using assms match_tail_SomeD [of t "takeWhile (in_class cl) (strip_sep s)"
      "dropWhile (in_class cl) (strip_sep s)" g]
  by (auto simp: match_rest_def Let_def split: if_splits)

lemma match_alts_SomeD:
  assumes "match_alts ps cl t s = Some g"
  shows "g_id g \<noteq> [] \<and> g_season g \<noteq> Some [] \<and> g_episode g \<noteq> Some []
       \<and> (t = NoTail \<longrightarrow> g_episode g = None)
       \<and> (t \<noteq> SeasonEpisodeTail \<longrightarrow> g_season g = None)"
  using assms
proof (induction ps)
  case Nil
  then show ?case by simp
next
  case (Cons p ps)
  show ?case
  proof (cases "startsWith s p \<and> match_rest cl t (drop (length p) s) \<noteq> None")
    case True
    with Cons.prems have "match_rest cl t (drop (length p) s) = Some g" by auto
    then show ?thesis by (rule match_rest_SomeD)
  next
    case False
    with Cons.prems have "match_alts ps cl t s = Some g" by (auto split: if_splits)
    then show ?thesis by (rule Cons.IH)
  qed
qed

lemma regex_match_SomeD:
  assumes "regex_match rx s = Some g"
  shows "g_id g \<noteq> [] \<and> g_season g \<noteq> Some [] \<and> g_episode g \<noteq> Some []
       \<and> (idtail rx = NoTail \<longrightarrow> g_episode g = None)
       \<and> (idtail rx \<noteq> SeasonEpisodeTail \<longrightarrow> g_season g = None)"
  using assms unfolding regex_match_def by (rule match_alts_SomeD)

lemma toParsedId_captured:
  assumes "regex_match (regex d) s = Some g"
  shows "toParsedId d g s m =
     \<lparr> ParsedId.type = IdParserDefinition.type d,
       value = format d (g_id g),
       fullId = s,
       externalType = IdParserDefinition.externalType d,
       mediaType = m,
       season = g_season g,
       episode = g_episode g,
       generator = IdParserDefinition.generator d \<rparr>"
proof -
  from regex_match_SomeD [OF assms]
  have "g_season g \<noteq> Some []" and "g_episode g \<noteq> Some []" by simp_all
  then have "(if truthy (g_season g) then g_season g else None) = g_season g"
    and "(if truthy (g_episode g) then g_episode g else None) = g_episode g"
    by (auto simp: truthy_def split: option.splits)
  then show ?thesis by (simp add: toParsedId_def)
qed

lemma parse_loop_None:
  "parse_loop ds s m = None \<longleftrightarrow> (\<forall>d\<in>set ds. regex_match (regex d) s = None)"
  by (induction ds) (auto split: option.splits)

lemma parse_loop_Some:
  "parse_loop ds s m = Some p \<longleftrightarrow>
     (\<exists>i<length ds. (\<forall>j<i. regex_match (regex (ds ! j)) s = None) \<and>
        (\<exists>g. regex_match (regex (ds ! i)) s = Some g \<and> p = toParsedId (ds ! i) g s m))"
proof (induction ds)
  case Nil
  show ?case by simp
next
  case (Cons d ds)
  show ?case
  proof (cases "regex_match (regex d) s")
    case None
    then have "parse_loop (d # ds) s m = Some p \<longleftrightarrow> parse_loop ds s m = Some p" by simp
    also have "\<dots> \<longleftrightarrow> (\<exists>i<length ds. (\<forall>j<i. regex_match (regex (ds ! j)) s = None) \<and>
        (\<exists>g. regex_match (regex (ds ! i)) s = Some g \<and> p = toParsedId (ds ! i) g s m))"
      by (rule Cons.IH)
    also have "\<dots> \<longleftrightarrow> (\<exists>i<length (d # ds). (\<forall>j<i. regex_match (regex ((d # ds) ! j)) s = None) \<and>
        (\<exists>g. regex_match (regex ((d # ds) ! i)) s = Some g \<and> p = toParsedId ((d # ds) ! i) g s m))"
      (is "?L \<longleftrightarrow> ?R")
    proof
      assume ?L
      then obtain i g where "i < length ds" "\<forall>j<i. regex_match (regex (ds ! j)) s = None"
        "regex_match (regex (ds ! i)) s = Some g" "p = toParsedId (ds ! i) g s m" by blast
      with None have "Suc i < length (d # ds) \<and>
        (\<forall>j<Suc i. regex_match (regex ((d # ds) ! j)) s = None) \<and>
        regex_match (regex ((d # ds) ! Suc i)) s = Some g \<and> p = toParsedId ((d # ds) ! Suc i) g s m"
        by (auto simp: less_Suc_eq_0_disj)
      then show ?R by blast
    next
      assume ?R
      then obtain i g where i: "i < length (d # ds)"
        and a: "\<forall>j<i. regex_match (regex ((d # ds) ! j)) s = None"
        and b: "regex_match (regex ((d # ds) ! i)) s = Some g"
        and c: "p = toParsedId ((d # ds) ! i) g s m" by blast
      from b None obtain k where k: "i = Suc k" by (cases i) auto
      with i a b c have "k < length ds \<and> (\<forall>j<k. regex_match (regex (ds ! j)) s = None) \<and>
        regex_match (regex (ds ! k)) s = Some g \<and> p = toParsedId (ds ! k) g s m"
        by auto
      then show ?L by blast
    qed
    finally show ?thesis .
  next
    case (Some g)
    show ?thesis
    proof
      assume "parse_loop (d # ds) s m = Some p"
      with Some have "p = toParsedId d g s m" by simp
      with Some have "0 < length (d # ds) \<and> (\<forall>j<0. regex_match (regex ((d # ds) ! j)) s = None) \<and>
        regex_match (regex ((d # ds) ! 0)) s = Some g \<and> p = toParsedId ((d # ds) ! 0) g s m"
        by simp
      then show "\<exists>i<length (d # ds). (\<forall>j<i. regex_match (regex ((d # ds) ! j)) s = None) \<and>
        (\<exists>g. regex_match (regex ((d # ds) ! i)) s = Some g \<and> p = toParsedId ((d # ds) ! i) g s m)"
        by blast
    next
      assume "\<exists>i<length (d # ds). (\<forall>j<i. regex_match (regex ((d # ds) ! j)) s = None) \<and>
        (\<exists>g. regex_match (regex ((d # ds) ! i)) s = Some g \<and> p = toParsedId ((d # ds) ! i) g s m)"
      then obtain i g' where a: "\<forall>j<i. regex_match (regex ((d # ds) ! j)) s = None"
        and b: "regex_match (regex ((d # ds) ! i)) s = Some g'"
        and c: "p = toParsedId ((d # ds) ! i) g' s m" by blast
      have "i = 0"
      proof (rule ccontr)
        assume "i \<noteq> 0"
        with a have "regex_match (regex ((d # ds) ! 0)) s = None" by blast
        with Some show False by simp
      qed
      with b c Some show "parse_loop (d # ds) s m = Some p" by simp
    qed
  qed
qed

lemmas parser_defs = parser_imdbId_def parser_malId_def parser_thetvdbId_def
  parser_themoviedbId_def parser_kitsuId_def parser_anilistId_def parser_anidbId_def
  parser_animePlanetId_def parser_animecountdownId_def parser_anisearchId_def
  parser_notifyMoeId_def parser_simklId_def

lemmas regex_eval = regex_match_def startsWith_def match_rest_def colon_digits_def
  is_digit_def is_alnum_def

text \<open>
  Claim C6.  \<open>parse\<close> goes through the definitions in the order imdbId, malId,
  thetvdbId, themoviedbId, kitsuId, anilistId, anidbId, animePlanetId, animecountdownId,
  anisearchId, notifyMoeId, simklId.  It returns \<open>null\<close> exactly when no regex matches,
  and it returns \<open>p\<close> exactly when \<open>p\<close> is the object built from the first definition
  whose regex matches: that definition's type, external type and generator, the formatted
  \<open>id\<close> group, the input and the media type, and \<open>season\<close> and \<open>episode\<close> equal to
  the captured groups (absent when not captured).  The result is a function of the two
  arguments alone.
\<close>

theorem parse_first_match:
  "map IdParserDefinition.type ID_PARSERS =
     [imdbId, malId, thetvdbId, themoviedbId, kitsuId, anilistId, anidbId, animePlanetId,
      animecountdownId, anisearchId, notifyMoeId, simklId]
   \<and> (parse stremioId media = None \<longleftrightarrow>
        (\<forall>d\<in>set ID_PARSERS. regex_match (regex d) stremioId = None))
   \<and> (parse stremioId media = Some p \<longleftrightarrow>
        (\<exists>i<length ID_PARSERS.
           (\<forall>j<i. regex_match (regex (ID_PARSERS ! j)) stremioId = None) \<and>
           (\<exists>g. regex_match (regex (ID_PARSERS ! i)) stremioId = Some g \<and>
              p = \<lparr> ParsedId.type = IdParserDefinition.type (ID_PARSERS ! i),
                    value = format (ID_PARSERS ! i) (g_id g),
                    fullId = stremioId,
                    externalType = IdParserDefinition.externalType (ID_PARSERS ! i),
                    mediaType = media,
                    season = g_season g,
                    episode = g_episode g,
                    generator = IdParserDefinition.generator (ID_PARSERS ! i) \<rparr>)))"
proof (intro conjI)
  show "map IdParserDefinition.type ID_PARSERS =
     [imdbId, malId, thetvdbId, themoviedbId, kitsuId, anilistId, anidbId, animePlanetId,
      animecountdownId, anisearchId, notifyMoeId, simklId]"
    by (simp add: ID_PARSERS_def parser_defs)
  show "parse stremioId media = None \<longleftrightarrow>
        (\<forall>d\<in>set ID_PARSERS. regex_match (regex d) stremioId = None)"
    unfolding parse_def by (rule parse_loop_None)
  have "parse stremioId media = Some p \<longleftrightarrow>
        (\<exists>i<length ID_PARSERS.
           (\<forall>j<i. regex_match (regex (ID_PARSERS ! j)) stremioId = None) \<and>
           (\<exists>g. regex_match (regex (ID_PARSERS ! i)) stremioId = Some g \<and>
              p = toParsedId (ID_PARSERS ! i) g stremioId media))"
    unfolding parse_def by (rule parse_loop_Some)
  also have "\<dots> \<longleftrightarrow>
        (\<exists>i<length ID_PARSERS.
           (\<forall>j<i. regex_match (regex (ID_PARSERS ! j)) stremioId = None) \<and>
           (\<exists>g. regex_match (regex (ID_PARSERS ! i)) stremioId = Some g \<and>
              p = \<lparr> ParsedId.type = IdParserDefinition.type (ID_PARSERS ! i),
                    value = format (ID_PARSERS ! i) (g_id g),
                    fullId = stremioId,
                    externalType = IdParserDefinition.externalType (ID_PARSERS ! i),
                    mediaType = media,
                    season = g_season g,
                    episode = g_episode g,
                    generator = IdParserDefinition.generator (ID_PARSERS ! i) \<rparr>))"
    using toParsedId_captured by (metis (no_types, lifting))
  finally show "parse stremioId media = Some p \<longleftrightarrow>
        (\<exists>i<length ID_PARSERS.
           (\<forall>j<i. regex_match (regex (ID_PARSERS ! j)) stremioId = None) \<and>
           (\<exists>g. regex_match (regex (ID_PARSERS ! i)) stremioId = Some g \<and>
              p = \<lparr> ParsedId.type = IdParserDefinition.type (ID_PARSERS ! i),
                    value = format (ID_PARSERS ! i) (g_id g),
                    fullId = stremioId,
                    externalType = IdParserDefinition.externalType (ID_PARSERS ! i),
                    mediaType = media,
                    season = g_season g,
                    episode = g_episode g,
                    generator = IdParserDefinition.generator (ID_PARSERS ! i) \<rparr>))" .
qed


lemma ex_kitsu_regex:
  "regex_match (regex parser_imdbId) ''kitsu:12:3'' = None"
  "regex_match (regex parser_malId) ''kitsu:12:3'' = None"
  "regex_match (regex parser_thetvdbId) ''kitsu:12:3'' = None"
  "regex_match (regex parser_themoviedbId) ''kitsu:12:3'' = None"
  "regex_match (regex parser_kitsuId) ''kitsu:12:3'' =
     Some \<lparr> g_id = ''12'', g_season = None, g_episode = Some ''3'' \<rparr>"
  by (simp_all add: parser_defs regex_eval)

lemma ex_tt_regex:
  "regex_match (regex parser_imdbId) ''tt1234567'' =
     Some \<lparr> g_id = ''1234567'', g_season = None, g_episode = None \<rparr>"
  by (simp add: parser_defs regex_eval)

lemma ID_PARSERS_nth:
  "ID_PARSERS ! 0 = parser_imdbId" "ID_PARSERS ! Suc 0 = parser_malId"
  "ID_PARSERS ! Suc (Suc 0) = parser_thetvdbId"
  "ID_PARSERS ! Suc (Suc (Suc 0)) = parser_themoviedbId"
  "ID_PARSERS ! Suc (Suc (Suc (Suc 0))) = parser_kitsuId"
  "ID_PARSERS ! Suc (Suc (Suc (Suc (Suc 0)))) = parser_anilistId"
  "ID_PARSERS ! Suc (Suc (Suc (Suc (Suc (Suc 0))))) = parser_anidbId"
  "length ID_PARSERS = 12"
  by (simp_all add: ID_PARSERS_def)

text \<open>
  \<open>kitsu:12:3\<close> is resolved by the fifth definition after the first four fail,
  \<open>tt1234567\<close> by the first, and \<open>kitsu\<close> alone by none.
\<close>

theorem parse_first_match_witness:
  "parse ''kitsu:12:3'' ''series'' =
     Some \<lparr> ParsedId.type = kitsuId, value = VNum 12, fullId = ''kitsu:12:3'',
            externalType = ''kitsu_id'', mediaType = ''series'', season = None,
            episode = Some ''3'', generator = gen_episode ''kitsu'' \<rparr>
   \<and> parse ''tt1234567'' ''movie'' =
     Some \<lparr> ParsedId.type = imdbId, value = VStr ''tt1234567'', fullId = ''tt1234567'',
            externalType = ''imdb_id'', mediaType = ''movie'', season = None,
            episode = None, generator = gen_bare \<rparr>
   \<and> parse ''kitsu'' ''series'' = None"
proof (intro conjI)
  let ?p = "\<lparr> ParsedId.type = kitsuId, value = VNum 12, fullId = ''kitsu:12:3'',
            externalType = ''kitsu_id'', mediaType = ''series'', season = None,
            episode = Some ''3'', generator = gen_episode ''kitsu'' \<rparr>"
  have n: "Number_digits ''12'' = 12"
    by (simp add: Number_digits_def digit_val_def)
  have "\<exists>i<length ID_PARSERS.
           (\<forall>j<i. regex_match (regex (ID_PARSERS ! j)) ''kitsu:12:3'' = None) \<and>
           (\<exists>g. regex_match (regex (ID_PARSERS ! i)) ''kitsu:12:3'' = Some g \<and>
              ?p = \<lparr> ParsedId.type = IdParserDefinition.type (ID_PARSERS ! i),
                    value = format (ID_PARSERS ! i) (g_id g),
                    fullId = ''kitsu:12:3'',
                    externalType = IdParserDefinition.externalType (ID_PARSERS ! i),
                    mediaType = ''series'',
                    season = g_season g,
                    episode = g_episode g,
                    generator = IdParserDefinition.generator (ID_PARSERS ! i) \<rparr>)"
    by (rule exI [of _ "Suc (Suc (Suc (Suc 0)))"])
       (simp add: ID_PARSERS_nth All_less_Suc ex_kitsu_regex,
        simp add: parser_kitsuId_def format_number_def n)
  then show "parse ''kitsu:12:3'' ''series'' = Some ?p"
    using parse_first_match [of "''kitsu:12:3''" "''series''" ?p] by blast
next
  let ?p = "\<lparr> ParsedId.type = imdbId, value = VStr ''tt1234567'', fullId = ''tt1234567'',
            externalType = ''imdb_id'', mediaType = ''movie'', season = None,
            episode = None, generator = gen_bare \<rparr>"
  have "\<exists>i<length ID_PARSERS.
           (\<forall>j<i. regex_match (regex (ID_PARSERS ! j)) ''tt1234567'' = None) \<and>
           (\<exists>g. regex_match (regex (ID_PARSERS ! i)) ''tt1234567'' = Some g \<and>
              ?p = \<lparr> ParsedId.type = IdParserDefinition.type (ID_PARSERS ! i),
                    value = format (ID_PARSERS ! i) (g_id g),
                    fullId = ''tt1234567'',
                    externalType = IdParserDefinition.externalType (ID_PARSERS ! i),
                    mediaType = ''movie'',
                    season = g_season g,
                    episode = g_episode g,
                    generator = IdParserDefinition.generator (ID_PARSERS ! i) \<rparr>)"
    by (rule exI [of _ 0])
       (simp add: ID_PARSERS_nth ex_tt_regex, simp add: parser_imdbId_def)
  then show "parse ''tt1234567'' ''movie'' = Some ?p"
    using parse_first_match [of "''tt1234567''" "''movie''" ?p] by blast
next
  have "\<forall>d\<in>set ID_PARSERS. regex_match (regex d) ''kitsu'' = None"
    by (simp add: ID_PARSERS_def parser_defs regex_eval)
  then show "parse ''kitsu'' ''series'' = None"
    using parse_first_match [of "''kitsu''" "''series''"] by blast
qed

section \<open>Regenerating identifiers\<close>

lemma digit_char_val:
  assumes "d < 10"
  shows "digit_val (digit_char d) = d \<and> is_digit (digit_char d)"
proof -
  have "list_all (\<lambda>d. digit_val (digit_char d) = d \<and> is_digit (digit_char d))
          [0, 1, 2, 3, 4, 5, 6, 7, 8, 9]"
    by (simp add: digit_val_def digit_char_def is_digit_def)
  moreover have "d \<in> set [0, 1, 2, 3, 4, 5, 6, 7, 8, 9]"
    using assms by (simp add: less_Suc_eq numeral_eq_Suc) 
  ultimately show ?thesis unfolding list_all_iff by blast
qed

lemma Number_digits_snoc:
  "Number_digits (xs @ [c]) = 10 * Number_digits xs + digit_val c"
  by (simp add: Number_digits_def)

lemma show_nat_digits: "show_nat n \<noteq> [] \<and> list_all is_digit (show_nat n)"
proof (induction n rule: show_nat.induct)
  case (1 n)
  show ?case
  proof (cases "n < 10")
    case True
    then show ?thesis
      using digit_char_val [of n] by (simp add: show_nat.simps [of n])
  next
    case False
    have "n mod 10 < 10" by simp
    then have "is_digit (digit_char (n mod 10))"
      using digit_char_val by blast
    with False "1.IH" show ?thesis
      by (simp add: show_nat.simps [of n])
  qed
qed

lemma Number_show_nat: "Number_digits (show_nat n) = n"
proof (induction n rule: show_nat.induct)
  case (1 n)
  show ?case
  proof (cases "n < 10")
    case True
    then show ?thesis
      using digit_char_val [of n] by (simp add: show_nat.simps [of n] Number_digits_def)
  next
    case False
    have "n mod 10 < 10" by simp
    then have "digit_val (digit_char (n mod 10)) = n mod 10"
      using digit_char_val by blast
    with False "1.IH" show ?thesis
      by (simp add: show_nat.simps [of n] Number_digits_snoc)
  qed
qed

lemma is_digit_not_sep: "is_digit c \<Longrightarrow> c \<noteq> CHR '':'' \<and> c \<noteq> CHR ''-''"
  by (auto simp: is_digit_def)

lemma colon_not_digit: "\<not> is_digit (CHR '':'')"
  by (simp add: is_digit_def)

lemma takeWhile_digits_colon:
  "list_all is_digit ds \<Longrightarrow> takeWhile is_digit (ds @ CHR '':'' # r) = ds"
  "list_all is_digit ds \<Longrightarrow> dropWhile is_digit (ds @ CHR '':'' # r) = CHR '':'' # r"
  "list_all is_digit ds \<Longrightarrow> takeWhile is_digit ds = ds"
  "list_all is_digit ds \<Longrightarrow> dropWhile is_digit ds = []"
  by (induction ds) (simp_all add: colon_not_digit)

lemma colon_digits_end:
  "e \<noteq> [] \<Longrightarrow> list_all is_digit e \<Longrightarrow> colon_digits (CHR '':'' # e) = Some (e, [])"
  by (simp add: colon_digits_def takeWhile_digits_colon)

lemma colon_digits_colon:
  "s \<noteq> [] \<Longrightarrow> list_all is_digit s \<Longrightarrow>
     colon_digits (CHR '':'' # s @ CHR '':'' # r) = Some (s, CHR '':'' # r)"
  by (simp add: colon_digits_def takeWhile_digits_colon)

lemma match_tail_episode:
  "e \<noteq> [] \<Longrightarrow> list_all is_digit e \<Longrightarrow>
     match_tail EpisodeTail i (CHR '':'' # e) = Some \<lparr> g_id = i, g_season = None, g_episode = Some e \<rparr>"
  by (simp add: colon_digits_end)

lemma match_tail_season_episode:
  "s \<noteq> [] \<Longrightarrow> list_all is_digit s \<Longrightarrow> e \<noteq> [] \<Longrightarrow> list_all is_digit e \<Longrightarrow>
     match_tail SeasonEpisodeTail i (CHR '':'' # s @ CHR '':'' # e) =
       Some \<lparr> g_id = i, g_season = Some s, g_episode = Some e \<rparr>"
  by (simp add: colon_digits_end colon_digits_colon)

lemma match_rest_digits:
  assumes "ds \<noteq> []" and "list_all is_digit ds"
  shows "match_rest Digit t (CHR '':'' # ds @ CHR '':'' # r) = match_tail t ds (CHR '':'' # r)"
    and "match_rest Digit t (ds @ CHR '':'' # r) = match_tail t ds (CHR '':'' # r)"
proof -
  have cls: "in_class Digit = is_digit" by (rule ext) simp
  from assms obtain d ds' where ds: "ds = d # ds'" and d: "is_digit d"
    by (cases ds) simp_all
  have 1: "strip_sep (CHR '':'' # ds @ CHR '':'' # r) = ds @ CHR '':'' # r" by simp
  have 2: "strip_sep (ds @ CHR '':'' # r) = ds @ CHR '':'' # r"
    unfolding ds using is_digit_not_sep [OF d] by simp
  show "match_rest Digit t (CHR '':'' # ds @ CHR '':'' # r) = match_tail t ds (CHR '':'' # r)"
    unfolding match_rest_def 1 cls using assms by (simp add: takeWhile_digits_colon)
  show "match_rest Digit t (ds @ CHR '':'' # r) = match_tail t ds (CHR '':'' # r)"
    unfolding match_rest_def 2 cls using assms by (simp add: takeWhile_digits_colon)
qed

lemma match_alts_first:
  "match_rest cl t X = Some g \<Longrightarrow> match_alts (P # ps) cl t (P @ X) = Some g"
  by (simp add: startsWith_def)

lemma match_alts_miss:
  "\<forall>p\<in>set ps. \<not> startsWith s p \<Longrightarrow> match_alts ps cl t s = None"
  by (induction ps) simp_all

lemma match_tail_groups:
  assumes "match_tail t i r = Some g"
  shows "(\<forall>e. g_episode g = Some e \<longrightarrow> e \<noteq> [] \<and> list_all is_digit e)
       \<and> (\<forall>x. g_season g = Some x \<longrightarrow> x \<noteq> [] \<and> list_all is_digit x)
       \<and> (t = SeasonEpisodeTail \<and> g_episode g \<noteq> None \<longrightarrow> g_season g \<noteq> None)"
proof (cases r)
  case Nil
  with assms show ?thesis by auto
next
  case (Cons c cs)
  show ?thesis
  proof (cases t)
    case NoTail
    with assms Cons show ?thesis by simp
  next
    case EpisodeTail
    with assms Cons obtain e where cd: "colon_digits (c # cs) = Some (e, [])"
      and g: "g = \<lparr> g_id = i, g_season = None, g_episode = Some e \<rparr>"
      by (auto split: option.splits prod.splits list.splits)
    from colon_digits_SomeD [OF cd] g EpisodeTail show ?thesis by simp
  next
    case SeasonEpisodeTail
    with assms Cons obtain s r' e where cd: "colon_digits (c # cs) = Some (s, r')"
      and cd': "colon_digits r' = Some (e, [])"
      and g: "g = \<lparr> g_id = i, g_season = Some s, g_episode = Some e \<rparr>"
      by (auto split: option.splits prod.splits list.splits)
    from colon_digits_SomeD [OF cd] colon_digits_SomeD [OF cd'] g show ?thesis by simp
  qed
qed

lemma match_rest_groups:
  assumes "match_rest cl t s = Some g"
  shows "list_all (in_class cl) (g_id g)
       \<and> (\<forall>e. g_episode g = Some e \<longrightarrow> e \<noteq> [] \<and> list_all is_digit e)
       \<and> (\<forall>x. g_season g = Some x \<longrightarrow> x \<noteq> [] \<and> list_all is_digit x)
       \<and> (t = SeasonEpisodeTail \<and> g_episode g \<noteq> None \<longrightarrow> g_season g \<noteq> None)"
proof -
  let ?r = "strip_sep s"
  from assms have m: "match_tail t (takeWhile (in_class cl) ?r) (dropWhile (in_class cl) ?r) = Some g"
    by (auto simp: match_rest_def Let_def split: if_splits)
  from match_tail_SomeD [OF m] have "g_id g = takeWhile (in_class cl) ?r" by simp
  moreover have "list_all (in_class cl) (takeWhile (in_class cl) ?r)"
    by (simp add: list_all_iff) (meson set_takeWhileD)
  ultimately show ?thesis
    using match_tail_groups [OF m] by simp
qed

lemma match_alts_groups:
  assumes "match_alts ps cl t s = Some g"
  shows "list_all (in_class cl) (g_id g)
       \<and> (\<forall>e. g_episode g = Some e \<longrightarrow> e \<noteq> [] \<and> list_all is_digit e)
       \<and> (\<forall>x. g_season g = Some x \<longrightarrow> x \<noteq> [] \<and> list_all is_digit x)
       \<and> (t = SeasonEpisodeTail \<and> g_episode g \<noteq> None \<longrightarrow> g_season g \<noteq> None)"
  using assms
proof (induction ps)
  case Nil
  then show ?case by simp
next
  case (Cons p ps)
  show ?case
  proof (cases "startsWith s p \<and> match_rest cl t (drop (length p) s) \<noteq> None")
    case True
    with Cons.prems have "match_rest cl t (drop (length p) s) = Some g" by auto
    then show ?thesis by (rule match_rest_groups)
  next
    case False
    with Cons.prems have "match_alts ps cl t s = Some g" by (auto split: if_splits)
    then show ?thesis by (rule Cons.IH)
  qed
qed

lemma regex_match_groups:
  assumes "regex_match rx s = Some g"
  shows "list_all (in_class (idclass rx)) (g_id g)
       \<and> (\<forall>e. g_episode g = Some e \<longrightarrow> e \<noteq> [] \<and> list_all is_digit e)
       \<and> (\<forall>x. g_season g = Some x \<longrightarrow> x \<noteq> [] \<and> list_all is_digit x)
       \<and> (idtail rx = SeasonEpisodeTail \<and> g_episode g \<noteq> None \<longrightarrow> g_season g \<noteq> None)"
  using assms unfolding regex_match_def by (rule match_alts_groups)

text \<open>The three forms of generated string, matched by a regex whose first prefix they carry.\<close>

lemma regen_episode:
  assumes "alts rx = P # ps" and "idclass rx = Digit" and "idtail rx = EpisodeTail"
    and "ds \<noteq> []" and "list_all is_digit ds" and "e \<noteq> []" and "list_all is_digit e"
  shows "regex_match rx (P @ '':'' @ ds @ '':'' @ e) =
           Some \<lparr> g_id = ds, g_season = None, g_episode = Some e \<rparr>"
proof -
  have "match_rest Digit EpisodeTail (CHR '':'' # ds @ CHR '':'' # e) =
          Some \<lparr> g_id = ds, g_season = None, g_episode = Some e \<rparr>"
    using assms(4-7) by (simp add: match_rest_digits colon_digits_end)
  then have "match_alts (P # ps) Digit EpisodeTail (P @ CHR '':'' # ds @ CHR '':'' # e) =
          Some \<lparr> g_id = ds, g_season = None, g_episode = Some e \<rparr>"
    by (rule match_alts_first)
  then show ?thesis
    by (simp add: regex_match_def assms(1-3))
qed

lemma regen_season_episode:
  assumes "alts rx = P # ps" and "idclass rx = Digit" and "idtail rx = SeasonEpisodeTail"
    and "ds \<noteq> []" and "list_all is_digit ds" and "s \<noteq> []" and "list_all is_digit s"
    and "e \<noteq> []" and "list_all is_digit e"
  shows "regex_match rx (P @ '':'' @ ds @ '':'' @ s @ '':'' @ e) =
           Some \<lparr> g_id = ds, g_season = Some s, g_episode = Some e \<rparr>"
proof -
  have "match_rest Digit SeasonEpisodeTail (CHR '':'' # ds @ CHR '':'' # s @ CHR '':'' # e) =
          Some \<lparr> g_id = ds, g_season = Some s, g_episode = Some e \<rparr>"
    using assms(4-9) by (simp add: match_rest_digits colon_digits_end colon_digits_colon)
  then have "match_alts (P # ps) Digit SeasonEpisodeTail
               (P @ CHR '':'' # ds @ CHR '':'' # s @ CHR '':'' # e) =
          Some \<lparr> g_id = ds, g_season = Some s, g_episode = Some e \<rparr>"
    by (rule match_alts_first)
  then show ?thesis
    by (simp add: regex_match_def assms(1-3))
qed

lemma regen_bare:
  assumes "alts rx = P # ps" and "idclass rx = Digit" and "idtail rx = SeasonEpisodeTail"
    and "ds \<noteq> []" and "list_all is_digit ds" and "s \<noteq> []" and "list_all is_digit s"
    and "e \<noteq> []" and "list_all is_digit e"
  shows "regex_match rx ((P @ ds) @ '':'' @ s @ '':'' @ e) =
           Some \<lparr> g_id = ds, g_season = Some s, g_episode = Some e \<rparr>"
proof -
  have "match_rest Digit SeasonEpisodeTail (ds @ CHR '':'' # s @ CHR '':'' # e) =
          Some \<lparr> g_id = ds, g_season = Some s, g_episode = Some e \<rparr>"
    using assms(4-9) by (simp add: match_rest_digits colon_digits_end colon_digits_colon)
  then have "match_alts (P # ps) Digit SeasonEpisodeTail
               (P @ ds @ CHR '':'' # s @ CHR '':'' # e) =
          Some \<lparr> g_id = ds, g_season = Some s, g_episode = Some e \<rparr>"
    by (rule match_alts_first)
  then show ?thesis
    by (simp add: regex_match_def assms(1-3))
qed

lemma regex_match_miss:
  "\<forall>p\<in>set (alts rx). \<not> startsWith s p \<Longrightarrow> regex_match rx s = None"
  unfolding regex_match_def by (rule match_alts_miss)

lemma parse_loop_skip:
  "regex_match (regex d) s = None \<Longrightarrow> parse_loop (d # ds) s m = parse_loop ds s m"
  by simp

lemma parse_loop_hit:
  "regex_match (regex d) s = Some g \<Longrightarrow> parse_loop (d # ds) s m = Some (toParsedId d g s m)"
  by simp

lemma parsed_episode_tail:
  assumes "regex_match (regex d) s = Some g" and "g_episode g \<noteq> None"
  shows "idtail (regex d) \<noteq> NoTail"
  using regex_match_SomeD [OF assms(1)] assms(2) by auto

lemma reparse_imdbId:
  assumes "ds \<noteq> []" and "list_all is_digit ds" and "s \<noteq> []" and "list_all is_digit s"
    and "e \<noteq> []" and "list_all is_digit e"
  shows "parse ((''tt'' @ ds) @ '':'' @ s @ '':'' @ e) m =
           Some (toParsedId parser_imdbId \<lparr> g_id = ds, g_season = Some s, g_episode = Some e \<rparr> ((''tt'' @ ds) @ '':'' @ s @ '':'' @ e) m)"
proof -
  let ?G = "(''tt'' @ ds) @ '':'' @ s @ '':'' @ e"
  have hit: "regex_match (regex parser_imdbId) ?G = Some \<lparr> g_id = ds, g_season = Some s, g_episode = Some e \<rparr>"
    using assms by (intro regen_bare) (simp_all add: parser_imdbId_def)
  show ?thesis
    unfolding parse_def ID_PARSERS_def
    by (simp only:  parse_loop_hit [OF hit])
qed

lemma reparse_malId:
  assumes "ds \<noteq> []" and "list_all is_digit ds" and "e \<noteq> []" and "list_all is_digit e"
  shows "parse (''mal'' @ '':'' @ ds @ '':'' @ e) m =
           Some (toParsedId parser_malId \<lparr> g_id = ds, g_season = None, g_episode = Some e \<rparr> (''mal'' @ '':'' @ ds @ '':'' @ e) m)"
proof -
  let ?G = "''mal'' @ '':'' @ ds @ '':'' @ e"
  have m0: "regex_match (regex parser_imdbId) ?G = None"
    by (rule regex_match_miss) (simp add: parser_imdbId_def startsWith_def)
  have hit: "regex_match (regex parser_malId) ?G = Some \<lparr> g_id = ds, g_season = None, g_episode = Some e \<rparr>"
    using assms by (intro regen_episode) (simp_all add: parser_malId_def)
  show ?thesis
    unfolding parse_def ID_PARSERS_def
    by (simp only: parse_loop_skip [OF m0] parse_loop_hit [OF hit])
qed

lemma reparse_thetvdbId:
  assumes "ds \<noteq> []" and "list_all is_digit ds" and "s \<noteq> []" and "list_all is_digit s"
    and "e \<noteq> []" and "list_all is_digit e"
  shows "parse (''tvdb'' @ '':'' @ ds @ '':'' @ s @ '':'' @ e) m =
           Some (toParsedId parser_thetvdbId \<lparr> g_id = ds, g_season = Some s, g_episode = Some e \<rparr> (''tvdb'' @ '':'' @ ds @ '':'' @ s @ '':'' @ e) m)"
proof -
  let ?G = "''tvdb'' @ '':'' @ ds @ '':'' @ s @ '':'' @ e"
  have m0: "regex_match (regex parser_imdbId) ?G = None"
    by (rule regex_match_miss) (simp add: parser_imdbId_def startsWith_def)
  have m1: "regex_match (regex parser_malId) ?G = None"
    by (rule regex_match_miss) (simp add: parser_malId_def startsWith_def)
  have hit: "regex_match (regex parser_thetvdbId) ?G = Some \<lparr> g_id = ds, g_season = Some s, g_episode = Some e \<rparr>"
    using assms by (intro regen_season_episode) (simp_all add: parser_thetvdbId_def)
  show ?thesis
    unfolding parse_def ID_PARSERS_def
    by (simp only: parse_loop_skip [OF m0] parse_loop_skip [OF m1] parse_loop_hit [OF hit])
qed

lemma reparse_themoviedbId:
  assumes "ds \<noteq> []" and "list_all is_digit ds" and "s \<noteq> []" and "list_all is_digit s"
    and "e \<noteq> []" and "list_all is_digit e"
  shows "parse (''tmdb'' @ '':'' @ ds @ '':'' @ s @ '':'' @ e) m =
           Some (toParsedId parser_themoviedbId \<lparr> g_id = ds, g_season = Some s, g_episode = Some e \<rparr> (''tmdb'' @ '':'' @ ds @ '':'' @ s @ '':'' @ e) m)"
proof -
  let ?G = "''tmdb'' @ '':'' @ ds @ '':'' @ s @ '':'' @ e"
  have m0: "regex_match (regex parser_imdbId) ?G = None"
    by (rule regex_match_miss) (simp add: parser_imdbId_def startsWith_def)
  have m1: "regex_match (regex parser_malId) ?G = None"
    by (rule regex_match_miss) (simp add: parser_malId_def startsWith_def)
  have m2: "regex_match (regex parser_thetvdbId) ?G = None"
    by (rule regex_match_miss) (simp add: parser_thetvdbId_def startsWith_def)
  have hit: "regex_match (regex parser_themoviedbId) ?G = Some \<lparr> g_id = ds, g_season = Some s, g_episode = Some e \<rparr>"
    using assms by (intro regen_season_episode) (simp_all add: parser_themoviedbId_def)
  show ?thesis
    unfolding parse_def ID_PARSERS_def
    by (simp only: parse_loop_skip [OF m0] parse_loop_skip [OF m1] parse_loop_skip [OF m2] parse_loop_hit [OF hit])
qed

lemma reparse_kitsuId:
  assumes "ds \<noteq> []" and "list_all is_digit ds" and "e \<noteq> []" and "list_all is_digit e"
  shows "parse (''kitsu'' @ '':'' @ ds @ '':'' @ e) m =
           Some (toParsedId parser_kitsuId \<lparr> g_id = ds, g_season = None, g_episode = Some e \<rparr> (''kitsu'' @ '':'' @ ds @ '':'' @ e) m)"
proof -
  let ?G = "''kitsu'' @ '':'' @ ds @ '':'' @ e"
  have m0: "regex_match (regex parser_imdbId) ?G = None"
    by (rule regex_match_miss) (simp add: parser_imdbId_def startsWith_def)
  have m1: "regex_match (regex parser_malId) ?G = None"
    by (rule regex_match_miss) (simp add: parser_malId_def startsWith_def)
  have m2: "regex_match (regex parser_thetvdbId) ?G = None"
    by (rule regex_match_miss) (simp add: parser_thetvdbId_def startsWith_def)
  have m3: "regex_match (regex parser_themoviedbId) ?G = None"
    by (rule regex_match_miss) (simp add: parser_themoviedbId_def startsWith_def)
  have hit: "regex_match (regex parser_kitsuId) ?G = Some \<lparr> g_id = ds, g_season = None, g_episode = Some e \<rparr>"
    using assms by (intro regen_episode) (simp_all add: parser_kitsuId_def)
  show ?thesis
    unfolding parse_def ID_PARSERS_def
    by (simp only: parse_loop_skip [OF m0] parse_loop_skip [OF m1] parse_loop_skip [OF m2] parse_loop_skip [OF m3] parse_loop_hit [OF hit])
qed

lemma reparse_anilistId:
  assumes "ds \<noteq> []" and "list_all is_digit ds" and "e \<noteq> []" and "list_all is_digit e"
  shows "parse (''anilist'' @ '':'' @ ds @ '':'' @ e) m =
           Some (toParsedId parser_anilistId \<lparr> g_id = ds, g_season = None, g_episode = Some e \<rparr> (''anilist'' @ '':'' @ ds @ '':'' @ e) m)"
proof -
  let ?G = "''anilist'' @ '':'' @ ds @ '':'' @ e"
  have m0: "regex_match (regex parser_imdbId) ?G = None"
    by (rule regex_match_miss) (simp add: parser_imdbId_def startsWith_def)
  have m1: "regex_match (regex parser_malId) ?G = None"
    by (rule regex_match_miss) (simp add: parser_malId_def startsWith_def)
  have m2: "regex_match (regex parser_thetvdbId) ?G = None"
    by (rule regex_match_miss) (simp add: parser_thetvdbId_def startsWith_def)
  have m3: "regex_match (regex parser_themoviedbId) ?G = None"
    by (rule regex_match_miss) (simp add: parser_themoviedbId_def startsWith_def)
  have m4: "regex_match (regex parser_kitsuId) ?G = None"
    by (rule regex_match_miss) (simp add: parser_kitsuId_def startsWith_def)
  have hit: "regex_match (regex parser_anilistId) ?G = Some \<lparr> g_id = ds, g_season = None, g_episode = Some e \<rparr>"
    using assms by (intro regen_episode) (simp_all add: parser_anilistId_def)
  show ?thesis
    unfolding parse_def ID_PARSERS_def
    by (simp only: parse_loop_skip [OF m0] parse_loop_skip [OF m1] parse_loop_skip [OF m2] parse_loop_skip [OF m3] parse_loop_skip [OF m4] parse_loop_hit [OF hit])
qed

lemma reparse_anidbId:
  assumes "ds \<noteq> []" and "list_all is_digit ds" and "e \<noteq> []" and "list_all is_digit e"
  shows "parse (''anidb'' @ '':'' @ ds @ '':'' @ e) m =
           Some (toParsedId parser_anidbId \<lparr> g_id = ds, g_season = None, g_episode = Some e \<rparr> (''anidb'' @ '':'' @ ds @ '':'' @ e) m)"
proof -
  let ?G = "''anidb'' @ '':'' @ ds @ '':'' @ e"
  have m0: "regex_match (regex parser_imdbId) ?G = None"
    by (rule regex_match_miss) (simp add: parser_imdbId_def startsWith_def)
  have m1: "regex_match (regex parser_malId) ?G = None"
    by (rule regex_match_miss) (simp add: parser_malId_def startsWith_def)
  have m2: "regex_match (regex parser_thetvdbId) ?G = None"
    by (rule regex_match_miss) (simp add: parser_thetvdbId_def startsWith_def)
  have m3: "regex_match (regex parser_themoviedbId) ?G = None"
    by (rule regex_match_miss) (simp add: parser_themoviedbId_def startsWith_def)
  have m4: "regex_match (regex parser_kitsuId) ?G = None"
    by (rule regex_match_miss) (simp add: parser_kitsuId_def startsWith_def)
  have m5: "regex_match (regex parser_anilistId) ?G = None"
    by (rule regex_match_miss) (simp add: parser_anilistId_def startsWith_def)
  have hit: "regex_match (regex parser_anidbId) ?G = Some \<lparr> g_id = ds, g_season = None, g_episode = Some e \<rparr>"
    using assms by (intro regen_episode) (simp_all add: parser_anidbId_def)
  show ?thesis
    unfolding parse_def ID_PARSERS_def
    by (simp only: parse_loop_skip [OF m0] parse_loop_skip [OF m1] parse_loop_skip [OF m2] parse_loop_skip [OF m3] parse_loop_skip [OF m4] parse_loop_skip [OF m5] parse_loop_hit [OF hit])
qed

lemma ID_PARSERS_cases:
  assumes "d \<in> set ID_PARSERS"
  obtains "d = parser_imdbId" | "d = parser_malId" | "d = parser_thetvdbId"
    | "d = parser_themoviedbId" | "d = parser_kitsuId" | "d = parser_anilistId"
    | "d = parser_anidbId" | "idtail (regex d) = NoTail"
proof -
  from assms have "d = parser_imdbId \<or> d = parser_malId \<or> d = parser_thetvdbId
    \<or> d = parser_themoviedbId \<or> d = parser_kitsuId \<or> d = parser_anilistId
    \<or> d = parser_anidbId \<or> d = parser_animePlanetId \<or> d = parser_animecountdownId
    \<or> d = parser_anisearchId \<or> d = parser_notifyMoeId \<or> d = parser_simklId"
    by (simp add: ID_PARSERS_def)
  moreover have "idtail (regex parser_animePlanetId) = NoTail"
    "idtail (regex parser_animecountdownId) = NoTail"
    "idtail (regex parser_anisearchId) = NoTail"
    "idtail (regex parser_notifyMoeId) = NoTail"
    "idtail (regex parser_simklId) = NoTail"
    by (simp_all add: parser_defs)
  ultimately show ?thesis using that by blast
qed

lemma in_class_Digit: "in_class Digit = is_digit"
  by (rule ext) simp

lemma toParsedId_sel:
  "ParsedId.type (toParsedId d g s m) = IdParserDefinition.type d"
  "ParsedId.value (toParsedId d g s m) = format d (g_id g)"
  "ParsedId.season (toParsedId d g s m) = (if truthy (g_season g) then g_season g else None)"
  "ParsedId.episode (toParsedId d g s m) = (if truthy (g_episode g) then g_episode g else None)"
  "ParsedId.generator (toParsedId d g s m) = IdParserDefinition.generator d"
  by (simp_all add: toParsedId_def)

lemma regenerate_with_episode:
  assumes "parse stremioId media = Some p"
    and "ParsedId.episode p \<noteq> None"
  shows "\<exists>p'. parse (ParsedId.generator p (ParsedId.value p) (ParsedId.season p)
                       (ParsedId.episode p)) media' = Some p'
            \<and> ParsedId.type p' = ParsedId.type p
            \<and> ParsedId.value p' = ParsedId.value p
            \<and> ParsedId.season p' = ParsedId.season p
            \<and> ParsedId.episode p' = ParsedId.episode p"
proof -
  from assms(1) obtain i g where i: "i < length ID_PARSERS"
    and hit: "regex_match (regex (ID_PARSERS ! i)) stremioId = Some g"
    and p: "p = toParsedId (ID_PARSERS ! i) g stremioId media"
    unfolding parse_def parse_loop_Some by blast
  let ?d = "ID_PARSERS ! i"
  from i have mem: "?d \<in> set ID_PARSERS" by simp
  note inv = regex_match_SomeD [OF hit] regex_match_groups [OF hit]
  from inv have ne: "g_season g \<noteq> Some []" "g_episode g \<noteq> Some []" by simp_all
  then have opt: "(if truthy (g_season g) then g_season g else None) = g_season g"
    "(if truthy (g_episode g) then g_episode g else None) = g_episode g"
    by (auto simp: truthy_def split: option.splits)
  from assms(2) p opt obtain e where e: "g_episode g = Some e"
    by (auto simp: toParsedId_sel)
  from inv e have e_ok: "e \<noteq> []" "list_all is_digit e" by simp_all
  from inv e have tail: "idtail (regex ?d) \<noteq> NoTail" by auto
  from inv have id_ne: "g_id g \<noteq> []" by simp
  have tr: "truthy (Some e)" using e_ok by (simp add: truthy_def)
  from mem show ?thesis
  proof (cases rule: ID_PARSERS_cases)
    case 1
    have cls: "idclass (regex parser_imdbId) = Digit" and tl: "idtail (regex parser_imdbId) = SeasonEpisodeTail"
      by (simp_all add: parser_imdbId_def)
    from inv cls 1 have ds: "list_all is_digit (g_id g)" by (simp add: in_class_Digit)
    from inv tl 1 e obtain s where s: "g_season g = Some s" by auto
    from inv s have s_ok: "s \<noteq> []" "list_all is_digit s" by simp_all
    have trs: "truthy (Some s)" using s_ok by (simp add: truthy_def)
    have gen: "ParsedId.generator p (ParsedId.value p) (ParsedId.season p) (ParsedId.episode p)
        = (''tt'' @ g_id g) @ '':'' @ s @ '':'' @ e"
      unfolding p toParsedId_sel opt 1 by (simp add: parser_imdbId_def gen_bare_def s e)
    have "parse ((''tt'' @ g_id g) @ '':'' @ s @ '':'' @ e) media' =
        Some (toParsedId parser_imdbId \<lparr> g_id = g_id g, g_season = Some s, g_episode = Some e \<rparr>
                ((''tt'' @ g_id g) @ '':'' @ s @ '':'' @ e) media')"
      using id_ne ds s_ok e_ok by (rule reparse_imdbId)
    moreover have "ParsedId.type p = imdbId" "ParsedId.value p = VStr (''tt'' @ g_id g)"
      "ParsedId.season p = Some s" "ParsedId.episode p = Some e"
      unfolding p toParsedId_sel opt 1 by (simp_all add: parser_imdbId_def s e)
    ultimately show ?thesis
      unfolding gen by (simp add: toParsedId_sel truthy_def e_ok s_ok) (simp add: parser_imdbId_def)
  next
    case 2
    have cls: "idclass (regex parser_malId) = Digit" and tl: "idtail (regex parser_malId) = EpisodeTail"
      by (simp_all add: parser_malId_def)
    from inv tl 2 have s: "g_season g = None" by simp
    let ?n = "Number_digits (g_id g)"
    have gen: "ParsedId.generator p (ParsedId.value p) (ParsedId.season p) (ParsedId.episode p)
        = ''mal'' @ '':'' @ show_nat ?n @ '':'' @ e"
      unfolding p toParsedId_sel opt 2
      by (simp add: parser_malId_def gen_episode_def format_number_def s e)
    have "parse (''mal'' @ '':'' @ show_nat ?n @ '':'' @ e) media' =
        Some (toParsedId parser_malId \<lparr> g_id = show_nat ?n, g_season = None, g_episode = Some e \<rparr>
                (''mal'' @ '':'' @ show_nat ?n @ '':'' @ e) media')"
      using show_nat_digits [of ?n] e_ok by (intro reparse_malId) simp_all
    moreover have "ParsedId.type p = malId" "ParsedId.value p = VNum ?n"
      "ParsedId.season p = None" "ParsedId.episode p = Some e"
      unfolding p toParsedId_sel opt 2 by (simp_all add: parser_malId_def format_number_def s e)
    ultimately show ?thesis
      unfolding gen by (simp add: toParsedId_sel truthy_def e_ok)
        (simp add: parser_malId_def format_number_def Number_show_nat)
  next
    case 3
    have cls: "idclass (regex parser_thetvdbId) = Digit" and tl: "idtail (regex parser_thetvdbId) = SeasonEpisodeTail"
      by (simp_all add: parser_thetvdbId_def)
    from inv tl 3 e obtain s where s: "g_season g = Some s" by auto
    from inv s have s_ok: "s \<noteq> []" "list_all is_digit s" by simp_all
    have trs: "truthy (Some s)" using s_ok by (simp add: truthy_def)
    let ?n = "Number_digits (g_id g)"
    have gen: "ParsedId.generator p (ParsedId.value p) (ParsedId.season p) (ParsedId.episode p)
        = ''tvdb'' @ '':'' @ show_nat ?n @ '':'' @ s @ '':'' @ e"
      unfolding p toParsedId_sel opt 3
      by (simp add: parser_thetvdbId_def gen_season_episode_def format_number_def s e)
    have "parse (''tvdb'' @ '':'' @ show_nat ?n @ '':'' @ s @ '':'' @ e) media' =
        Some (toParsedId parser_thetvdbId \<lparr> g_id = show_nat ?n, g_season = Some s, g_episode = Some e \<rparr>
                (''tvdb'' @ '':'' @ show_nat ?n @ '':'' @ s @ '':'' @ e) media')"
      using show_nat_digits [of ?n] s_ok e_ok by (intro reparse_thetvdbId) simp_all
    moreover have "ParsedId.type p = thetvdbId" "ParsedId.value p = VNum ?n"
      "ParsedId.season p = Some s" "ParsedId.episode p = Some e"
      unfolding p toParsedId_sel opt 3 by (simp_all add: parser_thetvdbId_def format_number_def s e)
    ultimately show ?thesis
      unfolding gen by (simp add: toParsedId_sel truthy_def e_ok s_ok)
        (simp add: parser_thetvdbId_def format_number_def Number_show_nat)
  next
    case 4
    have cls: "idclass (regex parser_themoviedbId) = Digit" and tl: "idtail (regex parser_themoviedbId) = SeasonEpisodeTail"
      by (simp_all add: parser_themoviedbId_def)
    from inv tl 4 e obtain s where s: "g_season g = Some s" by auto
    from inv s have s_ok: "s \<noteq> []" "list_all is_digit s" by simp_all
    have trs: "truthy (Some s)" using s_ok by (simp add: truthy_def)
    let ?n = "Number_digits (g_id g)"
    have gen: "ParsedId.generator p (ParsedId.value p) (ParsedId.season p) (ParsedId.episode p)
        = ''tmdb'' @ '':'' @ show_nat ?n @ '':'' @ s @ '':'' @ e"
      unfolding p toParsedId_sel opt 4
      by (simp add: parser_themoviedbId_def gen_season_episode_def format_number_def s e)
    have "parse (''tmdb'' @ '':'' @ show_nat ?n @ '':'' @ s @ '':'' @ e) media' =
        Some (toParsedId parser_themoviedbId \<lparr> g_id = show_nat ?n, g_season = Some s, g_episode = Some e \<rparr>
                (''tmdb'' @ '':'' @ show_nat ?n @ '':'' @ s @ '':'' @ e) media')"
      using show_nat_digits [of ?n] s_ok e_ok by (intro reparse_themoviedbId) simp_all
    moreover have "ParsedId.type p = themoviedbId" "ParsedId.value p = VNum ?n"
      "ParsedId.season p = Some s" "ParsedId.episode p = Some e"
      unfolding p toParsedId_sel opt 4 by (simp_all add: parser_themoviedbId_def format_number_def s e)
    ultimately show ?thesis
      unfolding gen by (simp add: toParsedId_sel truthy_def e_ok s_ok)
        (simp add: parser_themoviedbId_def format_number_def Number_show_nat)
  next
    case 5
    have cls: "idclass (regex parser_kitsuId) = Digit" and tl: "idtail (regex parser_kitsuId) = EpisodeTail"
      by (simp_all add: parser_kitsuId_def)
    from inv tl 5 have s: "g_season g = None" by simp
    let ?n = "Number_digits (g_id g)"
    have gen: "ParsedId.generator p (ParsedId.value p) (ParsedId.season p) (ParsedId.episode p)
        = ''kitsu'' @ '':'' @ show_nat ?n @ '':'' @ e"
      unfolding p toParsedId_sel opt 5
      by (simp add: parser_kitsuId_def gen_episode_def format_number_def s e)
    have "parse (''kitsu'' @ '':'' @ show_nat ?n @ '':'' @ e) media' =
        Some (toParsedId parser_kitsuId \<lparr> g_id = show_nat ?n, g_season = None, g_episode = Some e \<rparr>
                (''kitsu'' @ '':'' @ show_nat ?n @ '':'' @ e) media')"
      using show_nat_digits [of ?n] e_ok by (intro reparse_kitsuId) simp_all
    moreover have "ParsedId.type p = kitsuId" "ParsedId.value p = VNum ?n"
      "ParsedId.season p = None" "ParsedId.episode p = Some e"
      unfolding p toParsedId_sel opt 5 by (simp_all add: parser_kitsuId_def format_number_def s e)
    ultimately show ?thesis
      unfolding gen by (simp add: toParsedId_sel truthy_def e_ok)
        (simp add: parser_kitsuId_def format_number_def Number_show_nat)
  next
    case 6
    have cls: "idclass (regex parser_anilistId) = Digit" and tl: "idtail (regex parser_anilistId) = EpisodeTail"
      by (simp_all add: parser_anilistId_def)
    from inv tl 6 have s: "g_season g = None" by simp
    let ?n = "Number_digits (g_id g)"
    have gen: "ParsedId.generator p (ParsedId.value p) (ParsedId.season p) (ParsedId.episode p)
        = ''anilist'' @ '':'' @ show_nat ?n @ '':'' @ e"
      unfolding p toParsedId_sel opt 6
      by (simp add: parser_anilistId_def gen_episode_def format_number_def s e)
    have "parse (''anilist'' @ '':'' @ show_nat ?n @ '':'' @ e) media' =
        Some (toParsedId parser_anilistId \<lparr> g_id = show_nat ?n, g_season = None, g_episode = Some e \<rparr>
                (''anilist'' @ '':'' @ show_nat ?n @ '':'' @ e) media')"
      using show_nat_digits [of ?n] e_ok by (intro reparse_anilistId) simp_all
    moreover have "ParsedId.type p = anilistId" "ParsedId.value p = VNum ?n"
      "ParsedId.season p = None" "ParsedId.episode p = Some e"
      unfolding p toParsedId_sel opt 6 by (simp_all add: parser_anilistId_def format_number_def s e)
    ultimately show ?thesis
      unfolding gen by (simp add: toParsedId_sel truthy_def e_ok)
        (simp add: parser_anilistId_def format_number_def Number_show_nat)
  next
    case 7
    have cls: "idclass (regex parser_anidbId) = Digit" and tl: "idtail (regex parser_anidbId) = EpisodeTail"
      by (simp_all add: parser_anidbId_def)
    from inv tl 7 have s: "g_season g = None" by simp
    let ?n = "Number_digits (g_id g)"
    have gen: "ParsedId.generator p (ParsedId.value p) (ParsedId.season p) (ParsedId.episode p)
        = ''anidb'' @ '':'' @ show_nat ?n @ '':'' @ e"
      unfolding p toParsedId_sel opt 7
      by (simp add: parser_anidbId_def gen_episode_def format_number_def s e)
    have "parse (''anidb'' @ '':'' @ show_nat ?n @ '':'' @ e) media' =
        Some (toParsedId parser_anidbId \<lparr> g_id = show_nat ?n, g_season = None, g_episode = Some e \<rparr>
                (''anidb'' @ '':'' @ show_nat ?n @ '':'' @ e) media')"
      using show_nat_digits [of ?n] e_ok by (intro reparse_anidbId) simp_all
    moreover have "ParsedId.type p = anidbId" "ParsedId.value p = VNum ?n"
      "ParsedId.season p = None" "ParsedId.episode p = Some e"
      unfolding p toParsedId_sel opt 7 by (simp_all add: parser_anidbId_def format_number_def s e)
    ultimately show ?thesis
      unfolding gen by (simp add: toParsedId_sel truthy_def e_ok)
        (simp add: parser_anidbId_def format_number_def Number_show_nat)
  next
    case 8
    with tail show ?thesis by simp
  qed
qed

lemma match_tail_undefined: "match_tail t i (CHR '':'' # CHR ''u'' # r) = None"
  by (cases t) (simp_all add: colon_digits_def is_digit_def)

lemma colon_not_alnum: "\<not> is_alnum (CHR '':'')"
  by (simp add: is_alnum_def)

lemma takeWhile_alnum_colon:
  "list_all is_alnum ds \<Longrightarrow> takeWhile is_alnum (ds @ CHR '':'' # r) = ds"
  "list_all is_alnum ds \<Longrightarrow> dropWhile is_alnum (ds @ CHR '':'' # r) = CHR '':'' # r"
  by (induction ds) (simp_all add: colon_not_alnum)

lemma in_class_Alnum: "in_class Alnum = is_alnum"
  by (rule ext) simp

lemma match_rest_alnum:
  assumes "ds \<noteq> []" and "list_all is_alnum ds"
  shows "match_rest Alnum t (CHR '':'' # ds @ CHR '':'' # r) = match_tail t ds (CHR '':'' # r)"
proof -
  have 1: "strip_sep (CHR '':'' # ds @ CHR '':'' # r) = ds @ CHR '':'' # r" by simp
  show ?thesis
    unfolding match_rest_def 1 in_class_Alnum using assms by (simp add: takeWhile_alnum_colon)
qed

lemma match_alts_first_None:
  "match_rest cl t X = None \<Longrightarrow> \<forall>p\<in>set ps. \<not> startsWith (P @ X) p \<Longrightarrow>
     match_alts (P # ps) cl t (P @ X) = None"
  by (simp add: startsWith_def match_alts_miss)

lemma own_fail_digits:
  assumes "alts rx = P # ps" and "idclass rx = Digit"
    and "ds \<noteq> []" and "list_all is_digit ds"
    and "\<forall>p\<in>set ps. \<not> startsWith (P @ CHR '':'' # ds @ CHR '':'' # CHR ''u'' # r) p"
  shows "regex_match rx (P @ CHR '':'' # ds @ CHR '':'' # CHR ''u'' # r) = None"
proof -
  have "match_rest Digit (idtail rx) (CHR '':'' # ds @ CHR '':'' # CHR ''u'' # r) = None"
    using assms(3,4) by (simp add: match_rest_digits match_tail_undefined)
  then have "match_alts (P # ps) Digit (idtail rx) (P @ CHR '':'' # ds @ CHR '':'' # CHR ''u'' # r) = None"
    using assms(5) by (rule match_alts_first_None)
  then show ?thesis by (simp add: regex_match_def assms(1,2))
qed

lemma own_fail_bare:
  assumes "alts rx = P # ps" and "idclass rx = Digit"
    and "ds \<noteq> []" and "list_all is_digit ds"
    and "\<forall>p\<in>set ps. \<not> startsWith (P @ ds @ CHR '':'' # CHR ''u'' # r) p"
  shows "regex_match rx (P @ ds @ CHR '':'' # CHR ''u'' # r) = None"
proof -
  have "match_rest Digit (idtail rx) (ds @ CHR '':'' # CHR ''u'' # r) = None"
    using assms(3,4) by (simp add: match_rest_digits match_tail_undefined)
  then have "match_alts (P # ps) Digit (idtail rx) (P @ ds @ CHR '':'' # CHR ''u'' # r) = None"
    using assms(5) by (rule match_alts_first_None)
  then show ?thesis by (simp add: regex_match_def assms(1,2))
qed

lemma own_fail_alnum:
  assumes "alts rx = P # ps" and "idclass rx = Alnum"
    and "ds \<noteq> []" and "list_all is_alnum ds"
    and "\<forall>p\<in>set ps. \<not> startsWith (P @ CHR '':'' # ds @ CHR '':'' # CHR ''u'' # r) p"
  shows "regex_match rx (P @ CHR '':'' # ds @ CHR '':'' # CHR ''u'' # r) = None"
proof -
  have "match_rest Alnum (idtail rx) (CHR '':'' # ds @ CHR '':'' # CHR ''u'' # r) = None"
    using assms(3,4) by (simp add: match_rest_alnum match_tail_undefined)
  then have "match_alts (P # ps) Alnum (idtail rx) (P @ CHR '':'' # ds @ CHR '':'' # CHR ''u'' # r) = None"
    using assms(5) by (rule match_alts_first_None)
  then show ?thesis by (simp add: regex_match_def assms(1,2))
qed

lemma noparse_imdbId:
  assumes "ds \<noteq> []" and "list_all is_digit ds"
  shows "parse (''tt'' @ ds @ CHR '':'' # CHR ''u'' # r) m = None"
proof -
  let ?G = "''tt'' @ ds @ CHR '':'' # CHR ''u'' # r"
  have m0: "regex_match (regex parser_imdbId) ?G = None"
    using assms by (intro own_fail_bare [where P = "''tt''" and ps = "[''imdb'']"]) (simp_all add: parser_imdbId_def startsWith_def)
  have m1: "regex_match (regex parser_malId) ?G = None"
    by (rule regex_match_miss) (simp add: parser_malId_def startsWith_def)
  have m2: "regex_match (regex parser_thetvdbId) ?G = None"
    by (rule regex_match_miss) (simp add: parser_thetvdbId_def startsWith_def)
  have m3: "regex_match (regex parser_themoviedbId) ?G = None"
    by (rule regex_match_miss) (simp add: parser_themoviedbId_def startsWith_def)
  have m4: "regex_match (regex parser_kitsuId) ?G = None"
    by (rule regex_match_miss) (simp add: parser_kitsuId_def startsWith_def)
  have m5: "regex_match (regex parser_anilistId) ?G = None"
    by (rule regex_match_miss) (simp add: parser_anilistId_def startsWith_def)
  have m6: "regex_match (regex parser_anidbId) ?G = None"
    by (rule regex_match_miss) (simp add: parser_anidbId_def startsWith_def)
  have m7: "regex_match (regex parser_animePlanetId) ?G = None"
    by (rule regex_match_miss) (simp add: parser_animePlanetId_def startsWith_def)
  have m8: "regex_match (regex parser_animecountdownId) ?G = None"
    by (rule regex_match_miss) (simp add: parser_animecountdownId_def startsWith_def)
  have m9: "regex_match (regex parser_anisearchId) ?G = None"
    by (rule regex_match_miss) (simp add: parser_anisearchId_def startsWith_def)
  have m10: "regex_match (regex parser_notifyMoeId) ?G = None"
    by (rule regex_match_miss) (simp add: parser_notifyMoeId_def startsWith_def)
  have m11: "regex_match (regex parser_simklId) ?G = None"
    by (rule regex_match_miss) (simp add: parser_simklId_def startsWith_def)
  show ?thesis
    unfolding parse_def parse_loop_None ID_PARSERS_def
    using m0 m1 m2 m3 m4 m5 m6 m7 m8 m9 m10 m11 by simp
qed

lemma noparse_malId:
  assumes "ds \<noteq> []" and "list_all is_digit ds"
  shows "parse (''mal'' @ CHR '':'' # ds @ CHR '':'' # CHR ''u'' # r) m = None"
proof -
  let ?G = "''mal'' @ CHR '':'' # ds @ CHR '':'' # CHR ''u'' # r"
  have m0: "regex_match (regex parser_imdbId) ?G = None"
    by (rule regex_match_miss) (simp add: parser_imdbId_def startsWith_def)
  have m1: "regex_match (regex parser_malId) ?G = None"
    using assms by (intro own_fail_digits [where P = "''mal''" and ps = "[]"]) (simp_all add: parser_malId_def startsWith_def)
  have m2: "regex_match (regex parser_thetvdbId) ?G = None"
    by (rule regex_match_miss) (simp add: parser_thetvdbId_def startsWith_def)
  have m3: "regex_match (regex parser_themoviedbId) ?G = None"
    by (rule regex_match_miss) (simp add: parser_themoviedbId_def startsWith_def)
  have m4: "regex_match (regex parser_kitsuId) ?G = None"
    by (rule regex_match_miss) (simp add: parser_kitsuId_def startsWith_def)
  have m5: "regex_match (regex parser_anilistId) ?G = None"
    by (rule regex_match_miss) (simp add: parser_anilistId_def startsWith_def)
  have m6: "regex_match (regex parser_anidbId) ?G = None"
    by (rule regex_match_miss) (simp add: parser_anidbId_def startsWith_def)
  have m7: "regex_match (regex parser_animePlanetId) ?G = None"
    by (rule regex_match_miss) (simp add: parser_animePlanetId_def startsWith_def)
  have m8: "regex_match (regex parser_animecountdownId) ?G = None"
    by (rule regex_match_miss) (simp add: parser_animecountdownId_def startsWith_def)
  have m9: "regex_match (regex parser_anisearchId) ?G = None"
    by (rule regex_match_miss) (simp add: parser_anisearchId_def startsWith_def)
  have m10: "regex_match (regex parser_notifyMoeId) ?G = None"
    by (rule regex_match_miss) (simp add: parser_notifyMoeId_def startsWith_def)
  have m11: "regex_match (regex parser_simklId) ?G = None"
    by (rule regex_match_miss) (simp add: parser_simklId_def startsWith_def)
  show ?thesis
    unfolding parse_def parse_loop_None ID_PARSERS_def
    using m0 m1 m2 m3 m4 m5 m6 m7 m8 m9 m10 m11 by simp
qed

lemma noparse_thetvdbId:
  assumes "ds \<noteq> []" and "list_all is_digit ds"
  shows "parse (''tvdb'' @ CHR '':'' # ds @ CHR '':'' # CHR ''u'' # r) m = None"
proof -
  let ?G = "''tvdb'' @ CHR '':'' # ds @ CHR '':'' # CHR ''u'' # r"
  have m0: "regex_match (regex parser_imdbId) ?G = None"
    by (rule regex_match_miss) (simp add: parser_imdbId_def startsWith_def)
  have m1: "regex_match (regex parser_malId) ?G = None"
    by (rule regex_match_miss) (simp add: parser_malId_def startsWith_def)
  have m2: "regex_match (regex parser_thetvdbId) ?G = None"
    using assms by (intro own_fail_digits [where P = "''tvdb''" and ps = "[]"]) (simp_all add: parser_thetvdbId_def startsWith_def)
  have m3: "regex_match (regex parser_themoviedbId) ?G = None"
    by (rule regex_match_miss) (simp add: parser_themoviedbId_def startsWith_def)
  have m4: "regex_match (regex parser_kitsuId) ?G = None"
    by (rule regex_match_miss) (simp add: parser_kitsuId_def startsWith_def)
  have m5: "regex_match (regex parser_anilistId) ?G = None"
    by (rule regex_match_miss) (simp add: parser_anilistId_def startsWith_def)
  have m6: "regex_match (regex parser_anidbId) ?G = None"
    by (rule regex_match_miss) (simp add: parser_anidbId_def startsWith_def)
  have m7: "regex_match (regex parser_animePlanetId) ?G = None"
    by (rule regex_match_miss) (simp add: parser_animePlanetId_def startsWith_def)
  have m8: "regex_match (regex parser_animecountdownId) ?G = None"
    by (rule regex_match_miss) (simp add: parser_animecountdownId_def startsWith_def)
  have m9: "regex_match (regex parser_anisearchId) ?G = None"
    by (rule regex_match_miss) (simp add: parser_anisearchId_def startsWith_def)
  have m10: "regex_match (regex parser_notifyMoeId) ?G = None"
    by (rule regex_match_miss) (simp add: parser_notifyMoeId_def startsWith_def)
  have m11: "regex_match (regex parser_simklId) ?G = None"
    by (rule regex_match_miss) (simp add: parser_simklId_def startsWith_def)
  show ?thesis
    unfolding parse_def parse_loop_None ID_PARSERS_def
    using m0 m1 m2 m3 m4 m5 m6 m7 m8 m9 m10 m11 by simp
qed

lemma noparse_themoviedbId:
  assumes "ds \<noteq> []" and "list_all is_digit ds"
  shows "parse (''tmdb'' @ CHR '':'' # ds @ CHR '':'' # CHR ''u'' # r) m = None"
proof -
  let ?G = "''tmdb'' @ CHR '':'' # ds @ CHR '':'' # CHR ''u'' # r"
  have m0: "regex_match (regex parser_imdbId) ?G = None"
    by (rule regex_match_miss) (simp add: parser_imdbId_def startsWith_def)
  have m1: "regex_match (regex parser_malId) ?G = None"
    by (rule regex_match_miss) (simp add: parser_malId_def startsWith_def)
  have m2: "regex_match (regex parser_thetvdbId) ?G = None"
    by (rule regex_match_miss) (simp add: parser_thetvdbId_def startsWith_def)
  have m3: "regex_match (regex parser_themoviedbId) ?G = None"
    using assms by (intro own_fail_digits [where P = "''tmdb''" and ps = "[]"]) (simp_all add: parser_themoviedbId_def startsWith_def)
  have m4: "regex_match (regex parser_kitsuId) ?G = None"
    by (rule regex_match_miss) (simp add: parser_kitsuId_def startsWith_def)
  have m5: "regex_match (regex parser_anilistId) ?G = None"
    by (rule regex_match_miss) (simp add: parser_anilistId_def startsWith_def)
  have m6: "regex_match (regex parser_anidbId) ?G = None"
    by (rule regex_match_miss) (simp add: parser_anidbId_def startsWith_def)
  have m7: "regex_match (regex parser_animePlanetId) ?G = None"
    by (rule regex_match_miss) (simp add: parser_animePlanetId_def startsWith_def)
  have m8: "regex_match (regex parser_animecountdownId) ?G = None"
    by (rule regex_match_miss) (simp add: parser_animecountdownId_def startsWith_def)
  have m9: "regex_match (regex parser_anisearchId) ?G = None"
    by (rule regex_match_miss) (simp add: parser_anisearchId_def startsWith_def)
  have m10: "regex_match (regex parser_notifyMoeId) ?G = None"
    by (rule regex_match_miss) (simp add: parser_notifyMoeId_def startsWith_def)
  have m11: "regex_match (regex parser_simklId) ?G = None"
    by (rule regex_match_miss) (simp add: parser_simklId_def startsWith_def)
  show ?thesis
    unfolding parse_def parse_loop_None ID_PARSERS_def
    using m0 m1 m2 m3 m4 m5 m6 m7 m8 m9 m10 m11 by simp
qed

lemma noparse_kitsuId:
  assumes "ds \<noteq> []" and "list_all is_digit ds"
  shows "parse (''kitsu'' @ CHR '':'' # ds @ CHR '':'' # CHR ''u'' # r) m = None"
proof -
  let ?G = "''kitsu'' @ CHR '':'' # ds @ CHR '':'' # CHR ''u'' # r"
  have m0: "regex_match (regex parser_imdbId) ?G = None"
    by (rule regex_match_miss) (simp add: parser_imdbId_def startsWith_def)
  have m1: "regex_match (regex parser_malId) ?G = None"
    by (rule regex_match_miss) (simp add: parser_malId_def startsWith_def)
  have m2: "regex_match (regex parser_thetvdbId) ?G = None"
    by (rule regex_match_miss) (simp add: parser_thetvdbId_def startsWith_def)
  have m3: "regex_match (regex parser_themoviedbId) ?G = None"
    by (rule regex_match_miss) (simp add: parser_themoviedbId_def startsWith_def)
  have m4: "regex_match (regex parser_kitsuId) ?G = None"
    using assms by (intro own_fail_digits [where P = "''kitsu''" and ps = "[]"]) (simp_all add: parser_kitsuId_def startsWith_def)
  have m5: "regex_match (regex parser_anilistId) ?G = None"
    by (rule regex_match_miss) (simp add: parser_anilistId_def startsWith_def)
  have m6: "regex_match (regex parser_anidbId) ?G = None"
    by (rule regex_match_miss) (simp add: parser_anidbId_def startsWith_def)
  have m7: "regex_match (regex parser_animePlanetId) ?G = None"
    by (rule regex_match_miss) (simp add: parser_animePlanetId_def startsWith_def)
  have m8: "regex_match (regex parser_animecountdownId) ?G = None"
    by (rule regex_match_miss) (simp add: parser_animecountdownId_def startsWith_def)
  have m9: "regex_match (regex parser_anisearchId) ?G = None"
    by (rule regex_match_miss) (simp add: parser_anisearchId_def startsWith_def)
  have m10: "regex_match (regex parser_notifyMoeId) ?G = None"
    by (rule regex_match_miss) (simp add: parser_notifyMoeId_def startsWith_def)
  have m11: "regex_match (regex parser_simklId) ?G = None"
    by (rule regex_match_miss) (simp add: parser_simklId_def startsWith_def)
  show ?thesis
    unfolding parse_def parse_loop_None ID_PARSERS_def
    using m0 m1 m2 m3 m4 m5 m6 m7 m8 m9 m10 m11 by simp
qed

lemma noparse_anilistId:
  assumes "ds \<noteq> []" and "list_all is_digit ds"
  shows "parse (''anilist'' @ CHR '':'' # ds @ CHR '':'' # CHR ''u'' # r) m = None"
proof -
  let ?G = "''anilist'' @ CHR '':'' # ds @ CHR '':'' # CHR ''u'' # r"
  have m0: "regex_match (regex parser_imdbId) ?G = None"
    by (rule regex_match_miss) (simp add: parser_imdbId_def startsWith_def)
  have m1: "regex_match (regex parser_malId) ?G = None"
    by (rule regex_match_miss) (simp add: parser_malId_def startsWith_def)
  have m2: "regex_match (regex parser_thetvdbId) ?G = None"
    by (rule regex_match_miss) (simp add: parser_thetvdbId_def startsWith_def)
  have m3: "regex_match (regex parser_themoviedbId) ?G = None"
    by (rule regex_match_miss) (simp add: parser_themoviedbId_def startsWith_def)
  have m4: "regex_match (regex parser_kitsuId) ?G = None"
    by (rule regex_match_miss) (simp add: parser_kitsuId_def startsWith_def)
  have m5: "regex_match (regex parser_anilistId) ?G = None"
    using assms by (intro own_fail_digits [where P = "''anilist''" and ps = "[]"]) (simp_all add: parser_anilistId_def startsWith_def)
  have m6: "regex_match (regex parser_anidbId) ?G = None"
    by (rule regex_match_miss) (simp add: parser_anidbId_def startsWith_def)
  have m7: "regex_match (regex parser_animePlanetId) ?G = None"
    by (rule regex_match_miss) (simp add: parser_animePlanetId_def startsWith_def)
  have m8: "regex_match (regex parser_animecountdownId) ?G = None"
    by (rule regex_match_miss) (simp add: parser_animecountdownId_def startsWith_def)
  have m9: "regex_match (regex parser_anisearchId) ?G = None"
    by (rule regex_match_miss) (simp add: parser_anisearchId_def startsWith_def)
  have m10: "regex_match (regex parser_notifyMoeId) ?G = None"
    by (rule regex_match_miss) (simp add: parser_notifyMoeId_def startsWith_def)
  have m11: "regex_match (regex parser_simklId) ?G = None"
    by (rule regex_match_miss) (simp add: parser_simklId_def startsWith_def)
  show ?thesis
    unfolding parse_def parse_loop_None ID_PARSERS_def
    using m0 m1 m2 m3 m4 m5 m6 m7 m8 m9 m10 m11 by simp
qed

lemma noparse_anidbId:
  assumes "ds \<noteq> []" and "list_all is_digit ds"
  shows "parse (''anidb'' @ CHR '':'' # ds @ CHR '':'' # CHR ''u'' # r) m = None"
proof -
  let ?G = "''anidb'' @ CHR '':'' # ds @ CHR '':'' # CHR ''u'' # r"
  have m0: "regex_match (regex parser_imdbId) ?G = None"
    by (rule regex_match_miss) (simp add: parser_imdbId_def startsWith_def)
  have m1: "regex_match (regex parser_malId) ?G = None"
    by (rule regex_match_miss) (simp add: parser_malId_def startsWith_def)
  have m2: "regex_match (regex parser_thetvdbId) ?G = None"
    by (rule regex_match_miss) (simp add: parser_thetvdbId_def startsWith_def)
  have m3: "regex_match (regex parser_themoviedbId) ?G = None"
    by (rule regex_match_miss) (simp add: parser_themoviedbId_def startsWith_def)
  have m4: "regex_match (regex parser_kitsuId) ?G = None"
    by (rule regex_match_miss) (simp add: parser_kitsuId_def startsWith_def)
  have m5: "regex_match (regex parser_anilistId) ?G = None"
    by (rule regex_match_miss) (simp add: parser_anilistId_def startsWith_def)
  have m6: "regex_match (regex parser_anidbId) ?G = None"
    using assms by (intro own_fail_digits [where P = "''anidb''" and ps = "[''anidb_id'', ''anidbid'']"]) (simp_all add: parser_anidbId_def startsWith_def)
  have m7: "regex_match (regex parser_animePlanetId) ?G = None"
    by (rule regex_match_miss) (simp add: parser_animePlanetId_def startsWith_def)
  have m8: "regex_match (regex parser_animecountdownId) ?G = None"
    by (rule regex_match_miss) (simp add: parser_animecountdownId_def startsWith_def)
  have m9: "regex_match (regex parser_anisearchId) ?G = None"
    by (rule regex_match_miss) (simp add: parser_anisearchId_def startsWith_def)
  have m10: "regex_match (regex parser_notifyMoeId) ?G = None"
    by (rule regex_match_miss) (simp add: parser_notifyMoeId_def startsWith_def)
  have m11: "regex_match (regex parser_simklId) ?G = None"
    by (rule regex_match_miss) (simp add: parser_simklId_def startsWith_def)
  show ?thesis
    unfolding parse_def parse_loop_None ID_PARSERS_def
    using m0 m1 m2 m3 m4 m5 m6 m7 m8 m9 m10 m11 by simp
qed

lemma noparse_animePlanetId:
  assumes "ds \<noteq> []" and "list_all is_digit ds"
  shows "parse (''animeplanet'' @ CHR '':'' # ds @ CHR '':'' # CHR ''u'' # r) m = None"
proof -
  let ?G = "''animeplanet'' @ CHR '':'' # ds @ CHR '':'' # CHR ''u'' # r"
  have m0: "regex_match (regex parser_imdbId) ?G = None"
    by (rule regex_match_miss) (simp add: parser_imdbId_def startsWith_def)
  have m1: "regex_match (regex parser_malId) ?G = None"
    by (rule regex_match_miss) (simp add: parser_malId_def startsWith_def)
  have m2: "regex_match (regex parser_thetvdbId) ?G = None"
    by (rule regex_match_miss) (simp add: parser_thetvdbId_def startsWith_def)
  have m3: "regex_match (regex parser_themoviedbId) ?G = None"
    by (rule regex_match_miss) (simp add: parser_themoviedbId_def startsWith_def)
  have m4: "regex_match (regex parser_kitsuId) ?G = None"
    by (rule regex_match_miss) (simp add: parser_kitsuId_def startsWith_def)
  have m5: "regex_match (regex parser_anilistId) ?G = None"
    by (rule regex_match_miss) (simp add: parser_anilistId_def startsWith_def)
  have m6: "regex_match (regex parser_anidbId) ?G = None"
    by (rule regex_match_miss) (simp add: parser_anidbId_def startsWith_def)
  have m7: "regex_match (regex parser_animePlanetId) ?G = None"
    using assms by (intro own_fail_digits [where P = "''animeplanet''" and ps = "[''ap'']"]) (simp_all add: parser_animePlanetId_def startsWith_def)
  have m8: "regex_match (regex parser_animecountdownId) ?G = None"
    by (rule regex_match_miss) (simp add: parser_animecountdownId_def startsWith_def)
  have m9: "regex_match (regex parser_anisearchId) ?G = None"
    by (rule regex_match_miss) (simp add: parser_anisearchId_def startsWith_def)
  have m10: "regex_match (regex parser_notifyMoeId) ?G = None"
    by (rule regex_match_miss) (simp add: parser_notifyMoeId_def startsWith_def)
  have m11: "regex_match (regex parser_simklId) ?G = None"
    by (rule regex_match_miss) (simp add: parser_simklId_def startsWith_def)
  show ?thesis
    unfolding parse_def parse_loop_None ID_PARSERS_def
    using m0 m1 m2 m3 m4 m5 m6 m7 m8 m9 m10 m11 by simp
qed

lemma noparse_animecountdownId:
  assumes "ds \<noteq> []" and "list_all is_digit ds"
  shows "parse (''acd'' @ CHR '':'' # ds @ CHR '':'' # CHR ''u'' # r) m = None"
proof -
  let ?G = "''acd'' @ CHR '':'' # ds @ CHR '':'' # CHR ''u'' # r"
  have m0: "regex_match (regex parser_imdbId) ?G = None"
    by (rule regex_match_miss) (simp add: parser_imdbId_def startsWith_def)
  have m1: "regex_match (regex parser_malId) ?G = None"
    by (rule regex_match_miss) (simp add: parser_malId_def startsWith_def)
  have m2: "regex_match (regex parser_thetvdbId) ?G = None"
    by (rule regex_match_miss) (simp add: parser_thetvdbId_def startsWith_def)
  have m3: "regex_match (regex parser_themoviedbId) ?G = None"
    by (rule regex_match_miss) (simp add: parser_themoviedbId_def startsWith_def)
  have m4: "regex_match (regex parser_kitsuId) ?G = None"
    by (rule regex_match_miss) (simp add: parser_kitsuId_def startsWith_def)
  have m5: "regex_match (regex parser_anilistId) ?G = None"
    by (rule regex_match_miss) (simp add: parser_anilistId_def startsWith_def)
  have m6: "regex_match (regex parser_anidbId) ?G = None"
    by (rule regex_match_miss) (simp add: parser_anidbId_def startsWith_def)
  have m7: "regex_match (regex parser_animePlanetId) ?G = None"
    by (rule regex_match_miss) (simp add: parser_animePlanetId_def startsWith_def)
  have m8: "regex_match (regex parser_animecountdownId) ?G = None"
    using assms by (intro own_fail_digits [where P = "''acd''" and ps = "[]"]) (simp_all add: parser_animecountdownId_def startsWith_def)
  have m9: "regex_match (regex parser_anisearchId) ?G = None"
    by (rule regex_match_miss) (simp add: parser_anisearchId_def startsWith_def)
  have m10: "regex_match (regex parser_notifyMoeId) ?G = None"
    by (rule regex_match_miss) (simp add: parser_notifyMoeId_def startsWith_def)
  have m11: "regex_match (regex parser_simklId) ?G = None"
    by (rule regex_match_miss) (simp add: parser_simklId_def startsWith_def)
  show ?thesis
    unfolding parse_def parse_loop_None ID_PARSERS_def
    using m0 m1 m2 m3 m4 m5 m6 m7 m8 m9 m10 m11 by simp
qed

lemma noparse_anisearchId:
  assumes "ds \<noteq> []" and "list_all is_digit ds"
  shows "parse (''anisearch'' @ CHR '':'' # ds @ CHR '':'' # CHR ''u'' # r) m = None"
proof -
  let ?G = "''anisearch'' @ CHR '':'' # ds @ CHR '':'' # CHR ''u'' # r"
  have m0: "regex_match (regex parser_imdbId) ?G = None"
    by (rule regex_match_miss) (simp add: parser_imdbId_def startsWith_def)
  have m1: "regex_match (regex parser_malId) ?G = None"
    by (rule regex_match_miss) (simp add: parser_malId_def startsWith_def)
  have m2: "regex_match (regex parser_thetvdbId) ?G = None"
    by (rule regex_match_miss) (simp add: parser_thetvdbId_def startsWith_def)
  have m3: "regex_match (regex parser_themoviedbId) ?G = None"
    by (rule regex_match_miss) (simp add: parser_themoviedbId_def startsWith_def)
  have m4: "regex_match (regex parser_kitsuId) ?G = None"
    by (rule regex_match_miss) (simp add: parser_kitsuId_def startsWith_def)
  have m5: "regex_match (regex parser_anilistId) ?G = None"
    by (rule regex_match_miss) (simp add: parser_anilistId_def startsWith_def)
  have m6: "regex_match (regex parser_anidbId) ?G = None"
    by (rule regex_match_miss) (simp add: parser_anidbId_def startsWith_def)
  have m7: "regex_match (regex parser_animePlanetId) ?G = None"
    by (rule regex_match_miss) (simp add: parser_animePlanetId_def startsWith_def)
  have m8: "regex_match (regex parser_animecountdownId) ?G = None"
    by (rule regex_match_miss) (simp add: parser_animecountdownId_def startsWith_def)
  have m9: "regex_match (regex parser_anisearchId) ?G = None"
    using assms by (intro own_fail_digits [where P = "''anisearch''" and ps = "[]"]) (simp_all add: parser_anisearchId_def startsWith_def)
  have m10: "regex_match (regex parser_notifyMoeId) ?G = None"
    by (rule regex_match_miss) (simp add: parser_notifyMoeId_def startsWith_def)
  have m11: "regex_match (regex parser_simklId) ?G = None"
    by (rule regex_match_miss) (simp add: parser_simklId_def startsWith_def)
  show ?thesis
    unfolding parse_def parse_loop_None ID_PARSERS_def
    using m0 m1 m2 m3 m4 m5 m6 m7 m8 m9 m10 m11 by simp
qed

lemma noparse_notifyMoeId:
  assumes "ds \<noteq> []" and "list_all is_alnum ds"
  shows "parse (''notifymoe'' @ CHR '':'' # ds @ CHR '':'' # CHR ''u'' # r) m = None"
proof -
  let ?G = "''notifymoe'' @ CHR '':'' # ds @ CHR '':'' # CHR ''u'' # r"
  have m0: "regex_match (regex parser_imdbId) ?G = None"
    by (rule regex_match_miss) (simp add: parser_imdbId_def startsWith_def)
  have m1: "regex_match (regex parser_malId) ?G = None"
    by (rule regex_match_miss) (simp add: parser_malId_def startsWith_def)
  have m2: "regex_match (regex parser_thetvdbId) ?G = None"
    by (rule regex_match_miss) (simp add: parser_thetvdbId_def startsWith_def)
  have m3: "regex_match (regex parser_themoviedbId) ?G = None"
    by (rule regex_match_miss) (simp add: parser_themoviedbId_def startsWith_def)
  have m4: "regex_match (regex parser_kitsuId) ?G = None"
    by (rule regex_match_miss) (simp add: parser_kitsuId_def startsWith_def)
  have m5: "regex_match (regex parser_anilistId) ?G = None"
    by (rule regex_match_miss) (simp add: parser_anilistId_def startsWith_def)
  have m6: "regex_match (regex parser_anidbId) ?G = None"
    by (rule regex_match_miss) (simp add: parser_anidbId_def startsWith_def)
  have m7: "regex_match (regex parser_animePlanetId) ?G = None"
    by (rule regex_match_miss) (simp add: parser_animePlanetId_def startsWith_def)
  have m8: "regex_match (regex parser_animecountdownId) ?G = None"
    by (rule regex_match_miss) (simp add: parser_animecountdownId_def startsWith_def)
  have m9: "regex_match (regex parser_anisearchId) ?G = None"
    by (rule regex_match_miss) (simp add: parser_anisearchId_def startsWith_def)
  have m10: "regex_match (regex parser_notifyMoeId) ?G = None"
    using assms by (intro own_fail_alnum [where P = "''notifymoe''" and ps = "[''nm'']"]) (simp_all add: parser_notifyMoeId_def startsWith_def)
  have m11: "regex_match (regex parser_simklId) ?G = None"
    by (rule regex_match_miss) (simp add: parser_simklId_def startsWith_def)
  show ?thesis
    unfolding parse_def parse_loop_None ID_PARSERS_def
    using m0 m1 m2 m3 m4 m5 m6 m7 m8 m9 m10 m11 by simp
qed

lemma noparse_simklId:
  assumes "ds \<noteq> []" and "list_all is_digit ds"
  shows "parse (''simkl'' @ CHR '':'' # ds @ CHR '':'' # CHR ''u'' # r) m = None"
proof -
  let ?G = "''simkl'' @ CHR '':'' # ds @ CHR '':'' # CHR ''u'' # r"
  have m0: "regex_match (regex parser_imdbId) ?G = None"
    by (rule regex_match_miss) (simp add: parser_imdbId_def startsWith_def)
  have m1: "regex_match (regex parser_malId) ?G = None"
    by (rule regex_match_miss) (simp add: parser_malId_def startsWith_def)
  have m2: "regex_match (regex parser_thetvdbId) ?G = None"
    by (rule regex_match_miss) (simp add: parser_thetvdbId_def startsWith_def)
  have m3: "regex_match (regex parser_themoviedbId) ?G = None"
    by (rule regex_match_miss) (simp add: parser_themoviedbId_def startsWith_def)
  have m4: "regex_match (regex parser_kitsuId) ?G = None"
    by (rule regex_match_miss) (simp add: parser_kitsuId_def startsWith_def)
  have m5: "regex_match (regex parser_anilistId) ?G = None"
    by (rule regex_match_miss) (simp add: parser_anilistId_def startsWith_def)
  have m6: "regex_match (regex parser_anidbId) ?G = None"
    by (rule regex_match_miss) (simp add: parser_anidbId_def startsWith_def)
  have m7: "regex_match (regex parser_animePlanetId) ?G = None"
    by (rule regex_match_miss) (simp add: parser_animePlanetId_def startsWith_def)
  have m8: "regex_match (regex parser_animecountdownId) ?G = None"
    by (rule regex_match_miss) (simp add: parser_animecountdownId_def startsWith_def)
  have m9: "regex_match (regex parser_anisearchId) ?G = None"
    by (rule regex_match_miss) (simp add: parser_anisearchId_def startsWith_def)
  have m10: "regex_match (regex parser_notifyMoeId) ?G = None"
    by (rule regex_match_miss) (simp add: parser_notifyMoeId_def startsWith_def)
  have m11: "regex_match (regex parser_simklId) ?G = None"
    using assms by (intro own_fail_digits [where P = "''simkl''" and ps = "[]"]) (simp_all add: parser_simklId_def startsWith_def)
  show ?thesis
    unfolding parse_def parse_loop_None ID_PARSERS_def
    using m0 m1 m2 m3 m4 m5 m6 m7 m8 m9 m10 m11 by simp
qed

lemma match_tail_no_episode:
  "match_tail t i r = Some g \<Longrightarrow> g_episode g = None \<Longrightarrow> g_season g = None"
  by (cases t; cases r) (auto split: option.splits prod.splits list.splits)

lemma match_rest_no_episode:
  "match_rest cl t s = Some g \<Longrightarrow> g_episode g = None \<Longrightarrow> g_season g = None"
  using match_tail_no_episode
  by (fastforce simp: match_rest_def Let_def split: if_splits)

lemma match_alts_no_episode:
  "match_alts ps cl t s = Some g \<Longrightarrow> g_episode g = None \<Longrightarrow> g_season g = None"
proof (induction ps)
  case Nil
  then show ?case by simp
next
  case (Cons p ps)
  show ?case
  proof (cases "startsWith s p \<and> match_rest cl t (drop (length p) s) \<noteq> None")
    case True
    with Cons.prems(1) have "match_rest cl t (drop (length p) s) = Some g" by auto
    from this Cons.prems(2) show ?thesis by (rule match_rest_no_episode)
  next
    case False
    with Cons.prems(1) have "match_alts ps cl t s = Some g" by (auto split: if_splits)
    from this Cons.prems(2) show ?thesis by (rule Cons.IH)
  qed
qed

lemma regex_match_no_episode:
  "regex_match rx s = Some g \<Longrightarrow> g_episode g = None \<Longrightarrow> g_season g = None"
  unfolding regex_match_def by (rule match_alts_no_episode)

lemma ID_PARSERS_all_cases:
  assumes "d \<in> set ID_PARSERS"
  obtains "d = parser_imdbId" | "d = parser_malId" | "d = parser_thetvdbId"
    | "d = parser_themoviedbId" | "d = parser_kitsuId" | "d = parser_anilistId"
    | "d = parser_anidbId" | "d = parser_animePlanetId" | "d = parser_animecountdownId"
    | "d = parser_anisearchId" | "d = parser_notifyMoeId" | "d = parser_simklId"
  using assms by (auto simp: ID_PARSERS_def)

lemma regenerate_without_episode:
  assumes "parse stremioId media = Some p"
    and "ParsedId.episode p = None"
  shows "parse (ParsedId.generator p (ParsedId.value p) (ParsedId.season p)
                  (ParsedId.episode p)) media' = None"
proof -
  from assms(1) obtain i g where i: "i < length ID_PARSERS"
    and hit: "regex_match (regex (ID_PARSERS ! i)) stremioId = Some g"
    and p: "p = toParsedId (ID_PARSERS ! i) g stremioId media"
    unfolding parse_def parse_loop_Some by blast
  let ?d = "ID_PARSERS ! i"
  from i have mem: "?d \<in> set ID_PARSERS" by simp
  note inv = regex_match_SomeD [OF hit] regex_match_groups [OF hit]
  from inv have ne: "g_season g \<noteq> Some []" "g_episode g \<noteq> Some []" by simp_all
  then have opt: "(if truthy (g_season g) then g_season g else None) = g_season g"
    "(if truthy (g_episode g) then g_episode g else None) = g_episode g"
    by (auto simp: truthy_def split: option.splits)
  from assms(2) p opt have e: "g_episode g = None"
    by (simp add: toParsedId_sel)
  from hit e have s: "g_season g = None" by (rule regex_match_no_episode)
  from inv have id_ne: "g_id g \<noteq> []" by simp
  have sn: "\<And>n. show_nat n \<noteq> []" "\<And>n. list_all is_digit (show_nat n)"
    using show_nat_digits by simp_all
  from mem show ?thesis
  proof (cases rule: ID_PARSERS_all_cases)
    case 1
    have "idclass (regex parser_imdbId) = Digit" by (simp add: parser_imdbId_def)
    with inv 1 have ds: "list_all is_digit (g_id g)" by (simp add: in_class_Digit)
    have gen: "ParsedId.generator p (ParsedId.value p) (ParsedId.season p) (ParsedId.episode p)
        = ''tt'' @ g_id g @ CHR '':'' # CHR ''u'' # ''ndefined:undefined''"
      unfolding p toParsedId_sel opt 1 by (simp add: parser_imdbId_def gen_bare_def s e)
    show ?thesis
      unfolding gen using id_ne ds by (rule noparse_imdbId)
  next
    case 2
    have gen: "ParsedId.generator p (ParsedId.value p) (ParsedId.season p) (ParsedId.episode p)
        = ''mal'' @ CHR '':'' # show_nat (Number_digits (g_id g)) @ CHR '':'' # CHR ''u'' # ''ndefined''"
      unfolding p toParsedId_sel opt 2
      by (simp add: parser_malId_def gen_episode_def format_number_def s e)
    show ?thesis
      unfolding gen by (rule noparse_malId) (rule sn)+
  next
    case 3
    have gen: "ParsedId.generator p (ParsedId.value p) (ParsedId.season p) (ParsedId.episode p)
        = ''tvdb'' @ CHR '':'' # show_nat (Number_digits (g_id g)) @ CHR '':'' # CHR ''u'' # ''ndefined:undefined''"
      unfolding p toParsedId_sel opt 3
      by (simp add: parser_thetvdbId_def gen_season_episode_def format_number_def s e)
    show ?thesis
      unfolding gen by (rule noparse_thetvdbId) (rule sn)+
  next
    case 4
    have gen: "ParsedId.generator p (ParsedId.value p) (ParsedId.season p) (ParsedId.episode p)
        = ''tmdb'' @ CHR '':'' # show_nat (Number_digits (g_id g)) @ CHR '':'' # CHR ''u'' # ''ndefined:undefined''"
      unfolding p toParsedId_sel opt 4
      by (simp add: parser_themoviedbId_def gen_season_episode_def format_number_def s e)
    show ?thesis
      unfolding gen by (rule noparse_themoviedbId) (rule sn)+
  next
    case 5
    have gen: "ParsedId.generator p (ParsedId.value p) (ParsedId.season p) (ParsedId.episode p)
        = ''kitsu'' @ CHR '':'' # show_nat (Number_digits (g_id g)) @ CHR '':'' # CHR ''u'' # ''ndefined''"
      unfolding p toParsedId_sel opt 5
      by (simp add: parser_kitsuId_def gen_episode_def format_number_def s e)
    show ?thesis
      unfolding gen by (rule noparse_kitsuId) (rule sn)+
  next
    case 6
    have gen: "ParsedId.generator p (ParsedId.value p) (ParsedId.season p) (ParsedId.episode p)
        = ''anilist'' @ CHR '':'' # show_nat (Number_digits (g_id g)) @ CHR '':'' # CHR ''u'' # ''ndefined''"
      unfolding p toParsedId_sel opt 6
      by (simp add: parser_anilistId_def gen_episode_def format_number_def s e)
    show ?thesis
      unfolding gen by (rule noparse_anilistId) (rule sn)+
  next
    case 7
    have gen: "ParsedId.generator p (ParsedId.value p) (ParsedId.season p) (ParsedId.episode p)
        = ''anidb'' @ CHR '':'' # show_nat (Number_digits (g_id g)) @ CHR '':'' # CHR ''u'' # ''ndefined''"
      unfolding p toParsedId_sel opt 7
      by (simp add: parser_anidbId_def gen_episode_def format_number_def s e)
    show ?thesis
      unfolding gen by (rule noparse_anidbId) (rule sn)+
  next
    case 8
    have gen: "ParsedId.generator p (ParsedId.value p) (ParsedId.season p) (ParsedId.episode p)
        = ''animeplanet'' @ CHR '':'' # show_nat (Number_digits (g_id g)) @ CHR '':'' # CHR ''u'' # ''ndefined''"
      unfolding p toParsedId_sel opt 8
      by (simp add: parser_animePlanetId_def gen_episode_def format_number_def s e)
    show ?thesis
      unfolding gen by (rule noparse_animePlanetId) (rule sn)+
  next
    case 9
    have gen: "ParsedId.generator p (ParsedId.value p) (ParsedId.season p) (ParsedId.episode p)
        = ''acd'' @ CHR '':'' # show_nat (Number_digits (g_id g)) @ CHR '':'' # CHR ''u'' # ''ndefined''"
      unfolding p toParsedId_sel opt 9
      by (simp add: parser_animecountdownId_def gen_episode_def format_number_def s e)
    show ?thesis
      unfolding gen by (rule noparse_animecountdownId) (rule sn)+
  next
    case 10
    have gen: "ParsedId.generator p (ParsedId.value p) (ParsedId.season p) (ParsedId.episode p)
        = ''anisearch'' @ CHR '':'' # show_nat (Number_digits (g_id g)) @ CHR '':'' # CHR ''u'' # ''ndefined''"
      unfolding p toParsedId_sel opt 10
      by (simp add: parser_anisearchId_def gen_episode_def format_number_def s e)
    show ?thesis
      unfolding gen by (rule noparse_anisearchId) (rule sn)+
  next
    case 11
    have "idclass (regex parser_notifyMoeId) = Alnum" by (simp add: parser_notifyMoeId_def)
    with inv 11 have ds: "list_all is_alnum (g_id g)" by (simp add: in_class_Alnum)
    have gen: "ParsedId.generator p (ParsedId.value p) (ParsedId.season p) (ParsedId.episode p)
        = ''notifymoe'' @ CHR '':'' # g_id g @ CHR '':'' # CHR ''u'' # ''ndefined''"
      unfolding p toParsedId_sel opt 11 by (simp add: parser_notifyMoeId_def gen_episode_def s e)
    show ?thesis
      unfolding gen using id_ne ds by (rule noparse_notifyMoeId)
  next
    case 12
    have gen: "ParsedId.generator p (ParsedId.value p) (ParsedId.season p) (ParsedId.episode p)
        = ''simkl'' @ CHR '':'' # show_nat (Number_digits (g_id g)) @ CHR '':'' # CHR ''u'' # ''ndefined''"
      unfolding p toParsedId_sel opt 12
      by (simp add: parser_simklId_def gen_episode_def format_number_def s e)
    show ?thesis
      unfolding gen by (rule noparse_simklId) (rule sn)+
  qed
qed

lemma parse_ex_tt: "parse ''tt1234567'' ''movie'' = Some ex_parsed_tt"
proof -
  have "parse ''tt1234567'' ''movie'' =
      Some (toParsedId parser_imdbId \<lparr> g_id = ''1234567'', g_season = None, g_episode = None \<rparr>
              ''tt1234567'' ''movie'')"
    unfolding parse_def ID_PARSERS_def by (simp only: parse_loop_hit [OF ex_tt_regex])
  then show ?thesis
    by (simp add: toParsedId_def parser_imdbId_def ex_parsed_tt_def truthy_def)
qed

lemma parse_ex_kitsu: "parse ''kitsu-012:3'' ''series'' = Some ex_parsed_kitsu"
proof -
  have m: "regex_match (regex parser_imdbId) ''kitsu-012:3'' = None"
    "regex_match (regex parser_malId) ''kitsu-012:3'' = None"
    "regex_match (regex parser_thetvdbId) ''kitsu-012:3'' = None"
    "regex_match (regex parser_themoviedbId) ''kitsu-012:3'' = None"
    by (simp_all add: parser_defs regex_eval)
  have hit: "regex_match (regex parser_kitsuId) ''kitsu-012:3'' =
     Some \<lparr> g_id = ''012'', g_season = None, g_episode = Some ''3'' \<rparr>"
    by (simp add: parser_defs regex_eval)
  have "parse ''kitsu-012:3'' ''series'' =
      Some (toParsedId parser_kitsuId \<lparr> g_id = ''012'', g_season = None, g_episode = Some ''3'' \<rparr>
              ''kitsu-012:3'' ''series'')"
    unfolding parse_def ID_PARSERS_def
    by (simp only: parse_loop_skip [OF m(1)] parse_loop_skip [OF m(2)] parse_loop_skip [OF m(3)]
          parse_loop_skip [OF m(4)] parse_loop_hit [OF hit])
  then show ?thesis
    by (simp add: toParsedId_def parser_kitsuId_def ex_parsed_kitsu_def truthy_def
          format_number_def Number_digits_def digit_val_def)
qed

lemma gen_ex_tt:
  "ParsedId.generator ex_parsed_tt (ParsedId.value ex_parsed_tt) (ParsedId.season ex_parsed_tt)
     (ParsedId.episode ex_parsed_tt) = ''tt1234567:undefined:undefined''"
  by (simp add: ex_parsed_tt_def gen_bare_def)

lemma gen_ex_kitsu:
  "ParsedId.generator ex_parsed_kitsu (ParsedId.value ex_parsed_kitsu)
     (ParsedId.season ex_parsed_kitsu) (ParsedId.episode ex_parsed_kitsu) = ''kitsu:12:3''"
  by (simp add: ex_parsed_kitsu_def gen_episode_def show_nat.simps digit_char_def)

text \<open>
  Claim C5 as stated fails: \<open>tt1234567\<close> is accepted, its generator gives
  \<open>tt1234567:undefined:undefined\<close>, and \<open>parse\<close> does not recognise that string.
\<close>

theorem generator_roundtrip_counterexample:
  "parse ''tt1234567'' ''movie'' = Some ex_parsed_tt
   \<and> ParsedId.generator ex_parsed_tt (ParsedId.value ex_parsed_tt)
        (ParsedId.season ex_parsed_tt) (ParsedId.episode ex_parsed_tt)
       = ''tt1234567:undefined:undefined''
   \<and> parse ''tt1234567:undefined:undefined'' ''movie'' = None"
proof (intro conjI)
  show "parse ''tt1234567'' ''movie'' = Some ex_parsed_tt" by (rule parse_ex_tt)
  show "ParsedId.generator ex_parsed_tt (ParsedId.value ex_parsed_tt)
        (ParsedId.season ex_parsed_tt) (ParsedId.episode ex_parsed_tt)
       = ''tt1234567:undefined:undefined''" by (rule gen_ex_tt)
  have "\<forall>d\<in>set ID_PARSERS. regex_match (regex d) ''tt1234567:undefined:undefined'' = None"
    by (simp add: ID_PARSERS_def parser_defs regex_eval)
  then show "parse ''tt1234567:undefined:undefined'' ''movie'' = None"
    unfolding parse_def parse_loop_None .
qed

text \<open>
  Claim C5, amended.  For an identifier that \<open>parse\<close> accepts, with a numeric value of
  at most \<open>2^53\<close>: when an episode was captured (an imdbId, thetvdbId or themoviedbId
  with season and episode, or a malId, kitsuId, anilistId or anidbId with episode), the
  generator applied to the parsed value, season and episode gives a string that
  \<open>parse\<close> resolves to the same type, value, season and episode; when no episode was
  captured, the generated string is not recognised.
\<close>

theorem generator_roundtrip:
  assumes "parse stremioId media = Some p"
    and "\<forall>n. ParsedId.value p = VNum n \<longrightarrow> n \<le> 2 ^ 53"
  shows "(ParsedId.episode p \<noteq> None \<longrightarrow>
            (\<exists>p'. parse (ParsedId.generator p (ParsedId.value p) (ParsedId.season p)
                            (ParsedId.episode p)) media' = Some p'
                \<and> ParsedId.type p' = ParsedId.type p
                \<and> ParsedId.value p' = ParsedId.value p
                \<and> ParsedId.season p' = ParsedId.season p
                \<and> ParsedId.episode p' = ParsedId.episode p))
       \<and> (ParsedId.episode p = None \<longrightarrow>
            parse (ParsedId.generator p (ParsedId.value p) (ParsedId.season p)
                     (ParsedId.episode p)) media' = None)"
  using regenerate_with_episode [OF assms(1)] regenerate_without_episode [OF assms(1)]
  by blast

text \<open>
  \<open>kitsu-012:3\<close> is regenerated as \<open>kitsu:12:3\<close>, which resolves to kitsuId 12,
  episode 3 again.
\<close>

theorem generator_roundtrip_witness:
  "parse ''kitsu-012:3'' ''series'' = Some ex_parsed_kitsu
   \<and> (\<exists>p'. parse ''kitsu:12:3'' ''anime'' = Some p'
          \<and> ParsedId.type p' = kitsuId \<and> ParsedId.value p' = VNum 12
          \<and> ParsedId.season p' = None \<and> ParsedId.episode p' = Some ''3'')"
proof -
  have safe: "\<forall>n. ParsedId.value ex_parsed_kitsu = VNum n \<longrightarrow> n \<le> 2 ^ 53"
    by (simp add: ex_parsed_kitsu_def)
  have ep: "ParsedId.episode ex_parsed_kitsu \<noteq> None"
    by (simp add: ex_parsed_kitsu_def)
  from generator_roundtrip [OF parse_ex_kitsu safe, of "''anime''"] ep
  have "\<exists>p'. parse (ParsedId.generator ex_parsed_kitsu (ParsedId.value ex_parsed_kitsu)
                       (ParsedId.season ex_parsed_kitsu) (ParsedId.episode ex_parsed_kitsu))
                ''anime'' = Some p'
            \<and> ParsedId.type p' = ParsedId.type ex_parsed_kitsu
            \<and> ParsedId.value p' = ParsedId.value ex_parsed_kitsu
            \<and> ParsedId.season p' = ParsedId.season ex_parsed_kitsu
            \<and> ParsedId.episode p' = ParsedId.episode ex_parsed_kitsu"
    by blast
  then have "\<exists>p'. parse ''kitsu:12:3'' ''anime'' = Some p'
          \<and> ParsedId.type p' = kitsuId \<and> ParsedId.value p' = VNum 12
          \<and> ParsedId.season p' = None \<and> ParsedId.episode p' = Some ''3''"
    unfolding gen_ex_kitsu by (simp add: ex_parsed_kitsu_def)
  with parse_ex_kitsu show ?thesis by blast
qed

section \<open>The strings the identifier patterns accept\<close>

lemma in_class_not_sep: "in_class cl c \<Longrightarrow> c \<noteq> CHR '':'' \<and> c \<noteq> CHR ''-''"
  by (cases cl) (auto simp: is_digit_def is_alnum_def)

lemma takeWhile_class:
  assumes "list_all (in_class cl) i" and "t = [] \<or> hd t = CHR '':''"
  shows "takeWhile (in_class cl) (i @ t) = i \<and> dropWhile (in_class cl) (i @ t) = t"
proof -
  have "t = [] \<or> \<not> in_class cl (hd t)"
    using assms(2) in_class_not_sep [of cl "hd t"] by auto
  then have "takeWhile (in_class cl) t = [] \<and> dropWhile (in_class cl) t = t"
    by (cases t) auto
  with assms(1) show ?thesis
    by (induction i) simp_all
qed

lemma match_alts_SomeE:
  assumes "match_alts ps cl t s = Some g"
  obtains p where "p \<in> set ps" and "startsWith s p"
    and "match_rest cl t (drop (length p) s) = Some g"
  using assms
proof (induction ps arbitrary: thesis)
  case Nil
  then show ?case by simp
next
  case (Cons p ps)
  show ?case
  proof (cases "startsWith s p \<and> match_rest cl t (drop (length p) s) \<noteq> None")
    case True
    with Cons.prems(2) have "match_rest cl t (drop (length p) s) = Some g" by auto
    with True Cons.prems(1) [of p] show ?thesis by simp
  next
    case False
    with Cons.prems(2) have "match_alts ps cl t s = Some g" by (auto split: if_splits)
    then obtain q where "q \<in> set ps" "startsWith s q" "match_rest cl t (drop (length q) s) = Some g"
      using Cons.IH by blast
    with Cons.prems(1) [of q] show ?thesis by simp
  qed
qed

lemma match_alts_hit:
  "p \<in> set ps \<Longrightarrow> startsWith s p \<Longrightarrow> match_rest cl t (drop (length p) s) \<noteq> None \<Longrightarrow>
     match_alts ps cl t s \<noteq> None"
  by (induction ps) (auto split: option.splits)

text \<open>
  The strings \<open>[:-]?(?<id>C+)T$\<close> accepts: an optional separator, a non-empty run of
  the class, and nothing more, or an episode, or a season and an episode.
\<close>

lemma match_tail_accepts:
  "match_tail t i r \<noteq> None \<longleftrightarrow>
     (r = [] \<or>
      (t = EpisodeTail \<and> (\<exists>e. r = '':'' @ e \<and> e \<noteq> [] \<and> list_all is_digit e)) \<or>
      (t = SeasonEpisodeTail \<and>
         (\<exists>x e. r = '':'' @ x @ '':'' @ e \<and> x \<noteq> [] \<and> list_all is_digit x \<and>
                 e \<noteq> [] \<and> list_all is_digit e)))"
  (is "?L \<longleftrightarrow> ?R")
proof
  assume ?L
  then obtain g where g: "match_tail t i r = Some g" by auto
  show ?R
  proof (cases r)
    case Nil
    then show ?thesis by simp
  next
    case (Cons c cs)
    show ?thesis
    proof (cases t)
      case NoTail
      with g Cons show ?thesis by simp
    next
      case EpisodeTail
      with g Cons obtain e where "colon_digits r = Some (e, [])"
        by (auto split: option.splits prod.splits list.splits)
      from colon_digits_SomeD [OF this] EpisodeTail show ?thesis by auto
    next
      case SeasonEpisodeTail
      with g Cons obtain x r' e where a: "colon_digits r = Some (x, r')"
        and b: "colon_digits r' = Some (e, [])"
        by (auto split: option.splits prod.splits list.splits)
      from colon_digits_SomeD [OF a] colon_digits_SomeD [OF b] SeasonEpisodeTail
      show ?thesis by auto
    qed
  qed
next
  assume ?R
  then consider (a) "r = []"
    | (b) e where "t = EpisodeTail" "r = '':'' @ e" "e \<noteq> []" "list_all is_digit e"
    | (c) x e where "t = SeasonEpisodeTail" "r = '':'' @ x @ '':'' @ e" "x \<noteq> []"
        "list_all is_digit x" "e \<noteq> []" "list_all is_digit e"
    by blast
  then show ?L
  proof cases
    case a
    then show ?thesis by simp
  next
    case b
    then show ?thesis by (simp add: colon_digits_end)
  next
    case c
    then show ?thesis by (simp add: colon_digits_end colon_digits_colon)
  qed
qed

lemma match_rest_accepts:
  "match_rest cl t s \<noteq> None \<longleftrightarrow>
     (\<exists>sep i r. s = sep @ i @ r \<and> (sep = [] \<or> sep = '':'' \<or> sep = ''-'') \<and>
        i \<noteq> [] \<and> list_all (in_class cl) i \<and>
        (r = [] \<or>
         (t = EpisodeTail \<and> (\<exists>e. r = '':'' @ e \<and> e \<noteq> [] \<and> list_all is_digit e)) \<or>
         (t = SeasonEpisodeTail \<and>
            (\<exists>x e. r = '':'' @ x @ '':'' @ e \<and> x \<noteq> [] \<and> list_all is_digit x \<and>
                    e \<noteq> [] \<and> list_all is_digit e))))"
  (is "?L \<longleftrightarrow> ?R")
proof
  assume ?L
  let ?r = "strip_sep s"
  let ?i = "takeWhile (in_class cl) ?r" and ?d = "dropWhile (in_class cl) ?r"
  from \<open>?L\<close> have ne: "?i \<noteq> []" and tl: "match_tail t ?i ?d \<noteq> None"
    by (auto simp: match_rest_def Let_def split: if_splits)
  have "\<exists>sep. s = sep @ ?r \<and> (sep = [] \<or> sep = '':'' \<or> sep = ''-'')"
    by (cases s) auto
  then obtain sep where sep: "s = sep @ ?r" "sep = [] \<or> sep = '':'' \<or> sep = ''-''" by blast
  have "s = sep @ ?i @ ?d" using sep(1) by simp
  moreover have "list_all (in_class cl) ?i"
    by (simp add: list_all_iff) (meson set_takeWhileD)
  ultimately show ?R
    using sep(2) ne tl [unfolded match_tail_accepts] by blast
next
  assume ?R
  then obtain sep i r where s: "s = sep @ i @ r" and sep: "sep = [] \<or> sep = '':'' \<or> sep = ''-''"
    and i: "i \<noteq> []" "list_all (in_class cl) i"
    and r: "r = [] \<or>
         (t = EpisodeTail \<and> (\<exists>e. r = '':'' @ e \<and> e \<noteq> [] \<and> list_all is_digit e)) \<or>
         (t = SeasonEpisodeTail \<and>
            (\<exists>x e. r = '':'' @ x @ '':'' @ e \<and> x \<noteq> [] \<and> list_all is_digit x \<and>
                    e \<noteq> [] \<and> list_all is_digit e))"
    by blast
  from i obtain c i' where c: "i = c # i'" "in_class cl c" by (cases i) simp_all
  have strip: "strip_sep s = i @ r"
    using sep s c in_class_not_sep [OF c(2)] by auto
  from r have "r = [] \<or> hd r = CHR '':''" by auto
  with i(2) have tw: "takeWhile (in_class cl) (i @ r) = i" "dropWhile (in_class cl) (i @ r) = r"
    using takeWhile_class by blast+
  from r have "match_tail t i r \<noteq> None" unfolding match_tail_accepts .
  then show ?L
    using i(1) by (simp add: match_rest_def strip tw)
qed

text \<open>
  The strings a regex of \<open>ID_PARSERS\<close> accepts: one of the prefixes, an optional
  \<open>:\<close> or \<open>-\<close>, a non-empty id of the class, and the optional tail.
\<close>

lemma regex_match_accepts:
  "regex_match rx s \<noteq> None \<longleftrightarrow>
     (\<exists>p sep i r. p \<in> set (alts rx) \<and> s = p @ sep @ i @ r \<and>
        (sep = [] \<or> sep = '':'' \<or> sep = ''-'') \<and>
        i \<noteq> [] \<and> list_all (in_class (idclass rx)) i \<and>
        (r = [] \<or>
         (idtail rx = EpisodeTail \<and> (\<exists>e. r = '':'' @ e \<and> e \<noteq> [] \<and> list_all is_digit e)) \<or>
         (idtail rx = SeasonEpisodeTail \<and>
            (\<exists>x e. r = '':'' @ x @ '':'' @ e \<and> x \<noteq> [] \<and> list_all is_digit x \<and>
                    e \<noteq> [] \<and> list_all is_digit e))))"
  (is "?L \<longleftrightarrow> ?R")
proof
  assume ?L
  then obtain g where "match_alts (alts rx) (idclass rx) (idtail rx) s = Some g"
    by (auto simp: regex_match_def)
  then obtain p where p: "p \<in> set (alts rx)" "startsWith s p"
    and m: "match_rest (idclass rx) (idtail rx) (drop (length p) s) = Some g"
    by (rule match_alts_SomeE)
  from p(2) have s: "s = p @ drop (length p) s"
    unfolding startsWith_def by (metis append_take_drop_id)
  from m have "match_rest (idclass rx) (idtail rx) (drop (length p) s) \<noteq> None" by simp
  then obtain sep i r where d: "drop (length p) s = sep @ i @ r"
    and f1: "sep = [] \<or> sep = '':'' \<or> sep = ''-''" and f2: "i \<noteq> []"
    and f3: "list_all (in_class (idclass rx)) i"
    and f4: "r = [] \<or>
         (idtail rx = EpisodeTail \<and> (\<exists>e. r = '':'' @ e \<and> e \<noteq> [] \<and> list_all is_digit e)) \<or>
         (idtail rx = SeasonEpisodeTail \<and>
            (\<exists>x e. r = '':'' @ x @ '':'' @ e \<and> x \<noteq> [] \<and> list_all is_digit x \<and>
                    e \<noteq> [] \<and> list_all is_digit e))"
    unfolding match_rest_accepts by blast
  from s d have s': "s = p @ sep @ i @ r" by simp
  from p(1) s' f1 f2 f3 f4 show ?R
    by (intro exI [of _ p] exI [of _ sep] exI [of _ i] exI [of _ r] conjI)
next
  assume ?R
  then obtain p sep i r where p: "p \<in> set (alts rx)" and s: "s = p @ sep @ i @ r"
    and rest: "(sep = [] \<or> sep = '':'' \<or> sep = ''-'') \<and>
        i \<noteq> [] \<and> list_all (in_class (idclass rx)) i \<and>
        (r = [] \<or>
         (idtail rx = EpisodeTail \<and> (\<exists>e. r = '':'' @ e \<and> e \<noteq> [] \<and> list_all is_digit e)) \<or>
         (idtail rx = SeasonEpisodeTail \<and>
            (\<exists>x e. r = '':'' @ x @ '':'' @ e \<and> x \<noteq> [] \<and> list_all is_digit x \<and>
                    e \<noteq> [] \<and> list_all is_digit e)))"
    by blast
  have sw: "startsWith s p" and dr: "drop (length p) s = sep @ i @ r"
    using s by (simp_all add: startsWith_def)
  have "\<exists>sep' i' r'. sep @ i @ r = sep' @ i' @ r' \<and> (sep' = [] \<or> sep' = '':'' \<or> sep' = ''-'') \<and>
        i' \<noteq> [] \<and> list_all (in_class (idclass rx)) i' \<and>
        (r' = [] \<or>
         (idtail rx = EpisodeTail \<and> (\<exists>e. r' = '':'' @ e \<and> e \<noteq> [] \<and> list_all is_digit e)) \<or>
         (idtail rx = SeasonEpisodeTail \<and>
            (\<exists>x e. r' = '':'' @ x @ '':'' @ e \<and> x \<noteq> [] \<and> list_all is_digit x \<and>
                    e \<noteq> [] \<and> list_all is_digit e)))"
    using rest by (intro exI [of _ sep] exI [of _ i] exI [of _ r] conjI refl) simp_all
  then have "match_rest (idclass rx) (idtail rx) (sep @ i @ r) \<noteq> None"
    unfolding match_rest_accepts .
  then have "match_rest (idclass rx) (idtail rx) (drop (length p) s) \<noteq> None"
    unfolding dr .
  with p sw have "match_alts (alts rx) (idclass rx) (idtail rx) s \<noteq> None"
    by (rule match_alts_hit)
  then show ?L
    unfolding regex_match_def .
qed

section \<open>Properties of the presets\<close>






text \<open>
  Claim C10 as stated fails: the addon built from a timeout of 0 is not the addon built
  from an absent timeout, because \<open>preset.options\<close> holds the options as given; the
  same for an empty and an absent name.
\<close>

theorem generateAddon_falsy_options_counterexample:
  "generateAddon ex_env () (ex_custom\<lparr>custom_options.timeout := Some 0\<rparr>)
     \<noteq> generateAddon ex_env () (ex_custom\<lparr>custom_options.timeout := None\<rparr>)
   \<and> custom_options.timeout (preset_options (preset
        (generateAddon ex_env () (ex_custom\<lparr>custom_options.timeout := Some 0\<rparr>)))) = Some 0
   \<and> custom_options.timeout (preset_options (preset
        (generateAddon ex_env () (ex_custom\<lparr>custom_options.timeout := None\<rparr>)))) = None
   \<and> generateAddon ex_env () (ex_custom\<lparr>custom_options.name := Some []\<rparr>)
     \<noteq> generateAddon ex_env () (ex_custom\<lparr>custom_options.name := None\<rparr>)"
  by (simp add: generateAddon_def ex_custom_def)

text \<open>
  Claim C10, amended.  The addon \<open>generateAddon\<close> builds from a timeout of 0 is the
  addon built from an absent timeout in every field but \<open>preset\<close>, whose
  \<open>options\<close> are the options as given; the same for an empty and an absent name.
  The timeout is then the default timeout and the name \<open>Custom\<close> (\<open>||\<close>); any
  other timeout or name is kept.  The boolean options keep an explicit value (\<open>??\<close>):
  \<open>libraryAddon\<close> false stays false and true stays true, and
  \<open>formatPassthrough\<close> false stays false even when \<open>streamPassthrough\<close> is true.
\<close>

theorem generateAddon_falsy_options:
  "generateAddon env userData (options\<lparr>custom_options.timeout := Some 0\<rparr>)
     = (generateAddon env userData (options\<lparr>custom_options.timeout := None\<rparr>))
         \<lparr>preset := \<lparr> preset_id = [], preset_type = ''custom'',
                      preset_options = options\<lparr>custom_options.timeout := Some 0\<rparr> \<rparr>\<rparr>
   \<and> generateAddon env userData (options\<lparr>custom_options.name := Some []\<rparr>)
     = (generateAddon env userData (options\<lparr>custom_options.name := None\<rparr>))
         \<lparr>preset := \<lparr> preset_id = [], preset_type = ''custom'',
                      preset_options = options\<lparr>custom_options.name := Some []\<rparr> \<rparr>\<rparr>
   \<and> preset (generateAddon env userData options)
     = \<lparr> preset_id = [], preset_type = ''custom'', preset_options = options \<rparr>
   \<and> timeout (generateAddon env userData (options\<lparr>custom_options.timeout := Some 0\<rparr>))
     = DEFAULT_TIMEOUT env
   \<and> timeout (generateAddon env userData (options\<lparr>custom_options.timeout := None\<rparr>))
     = DEFAULT_TIMEOUT env
   \<and> Addon.name (generateAddon env userData (options\<lparr>custom_options.name := Some []\<rparr>))
     = ''Custom''
   \<and> Addon.name (generateAddon env userData (options\<lparr>custom_options.name := None\<rparr>))
     = ''Custom''
   \<and> timeout (generateAddon env userData options)
     = (case custom_options.timeout options of
          None \<Rightarrow> DEFAULT_TIMEOUT env
        | Some t \<Rightarrow> if t = 0 then DEFAULT_TIMEOUT env else t)
   \<and> Addon.name (generateAddon env userData options)
     = (case custom_options.name options of
          None \<Rightarrow> ''Custom''
        | Some n \<Rightarrow> if n = [] then ''Custom'' else n)
   \<and> library (generateAddon env userData (options\<lparr>libraryAddon := Some b\<rparr>)) = b
   \<and> library (generateAddon env userData (options\<lparr>libraryAddon := None\<rparr>)) = False
   \<and> formatPassthrough (generateAddon env userData
        (options\<lparr>custom_options.formatPassthrough := Some False, streamPassthrough := Some True\<rparr>))
       = False
   \<and> resultPassthrough (generateAddon env userData
        (options\<lparr>custom_options.resultPassthrough := Some b\<rparr>)) = b
   \<and> forceToTop (generateAddon env userData (options\<lparr>custom_options.forceToTop := Some b\<rparr>)) = b"
  by (simp add: generateAddon_def num_or_def str_or_def nullish_def split: option.splits)

text \<open>
  Options with timeout 0, \<open>formatPassthrough\<close> false and \<open>streamPassthrough\<close>
  true, and the same options with an empty name.
\<close>

theorem generateAddon_falsy_options_witness:
  "generateAddon ex_env () ex_custom
     = (generateAddon ex_env () (ex_custom\<lparr>custom_options.timeout := None\<rparr>))
         \<lparr>preset := \<lparr> preset_id = [], preset_type = ''custom'', preset_options = ex_custom \<rparr>\<rparr>
   \<and> timeout (generateAddon ex_env () ex_custom) = 15000
   \<and> Addon.name (generateAddon ex_env () ex_custom) = ''My Addon''
   \<and> Addon.name (generateAddon ex_env () (ex_custom\<lparr>custom_options.name := Some []\<rparr>)) = ''Custom''
   \<and> formatPassthrough (generateAddon ex_env () ex_custom) = False"
proof -
  note inst = generateAddon_falsy_options [of ex_env "()" ex_custom True]
  have o: "ex_custom\<lparr>custom_options.timeout := Some 0\<rparr> = ex_custom"
    "ex_custom\<lparr>custom_options.formatPassthrough := Some False, streamPassthrough := Some True\<rparr>
      = ex_custom"
    by (simp_all add: ex_custom_def)
  from inst have "generateAddon ex_env () (ex_custom\<lparr>custom_options.timeout := Some 0\<rparr>)
     = (generateAddon ex_env () (ex_custom\<lparr>custom_options.timeout := None\<rparr>))
         \<lparr>preset := \<lparr> preset_id = [], preset_type = ''custom'',
                      preset_options = ex_custom\<lparr>custom_options.timeout := Some 0\<rparr> \<rparr>\<rparr>"
    by (elim conjE)
  then have r: "generateAddon ex_env () ex_custom
     = (generateAddon ex_env () (ex_custom\<lparr>custom_options.timeout := None\<rparr>))
         \<lparr>preset := \<lparr> preset_id = [], preset_type = ''custom'', preset_options = ex_custom \<rparr>\<rparr>"
    by (simp only: o)
  from inst have "timeout (generateAddon ex_env () (ex_custom\<lparr>custom_options.timeout := Some 0\<rparr>))
     = DEFAULT_TIMEOUT ex_env"
    by (elim conjE)
  then have a: "timeout (generateAddon ex_env () ex_custom) = 15000"
    by (simp add: o ex_env_def)
  from inst have "Addon.name (generateAddon ex_env () ex_custom)
     = (case custom_options.name ex_custom of
          None \<Rightarrow> ''Custom''
        | Some n \<Rightarrow> if n = [] then ''Custom'' else n)"
    by (elim conjE)
  then have b: "Addon.name (generateAddon ex_env () ex_custom) = ''My Addon''"
    by (simp add: ex_custom_def)
  from inst have c: "Addon.name (generateAddon ex_env () (ex_custom\<lparr>custom_options.name := Some []\<rparr>))
      = ''Custom''"
    by (elim conjE)
  from inst have "formatPassthrough (generateAddon ex_env ()
        (ex_custom\<lparr>custom_options.formatPassthrough := Some False, streamPassthrough := Some True\<rparr>))
       = False"
    by (elim conjE)
  then have d: "formatPassthrough (generateAddon ex_env () ex_custom) = False"
    by (simp only: o)
  from r a b c d show ?thesis by (intro conjI)
qed

text \<open>
  Claim C8.  Writing \<open>supplied\<close> for a non-empty option: when the user supplied the
  Jackett URL or the API key, the result does not depend on the environment defaults, and
  it is an address built from the user's two values when both are supplied, and the error
  when one is missing, whatever the defaults are.  When the user supplied neither, the
  two defaults are used, and the result is the error unless both are set.  In every case
  the result is the error \<open>Jackett URL and API Key are required\<close> exactly when the
  selected URL or key is missing, and an address otherwise.
\<close>

theorem generateManifestUrl_defaults:
  "(truthy (jackettUrl options) \<or> truthy (jackettApiKey options) \<longrightarrow>
      generateManifestUrl (env\<lparr>BUILTIN_JACKETT_URL := x, BUILTIN_JACKETT_API_KEY := y\<rparr>)
          getBaseConfig base64EncodeJSON userData services options
        = generateManifestUrl env getBaseConfig base64EncodeJSON userData services options)
   \<and> (jackettUrl options = Some u \<and> u \<noteq> [] \<and> jackettApiKey options = Some k \<and> k \<noteq> [] \<longrightarrow>
      generateManifestUrl env getBaseConfig base64EncodeJSON userData services options
        = Inr (INTERNAL_URL env @ ''/builtins/torznab/'' @
               base64EncodeJSON
                 \<lparr> base = getBaseConfig userData services,
                   url = strip_trailing_slash u @ ''/api/v2.0/indexers/all/results/torznab'',
                   apiPath = ''/api'', apiKey = k, forceQuerySearch = True \<rparr> @
               ''/manifest.json''))
   \<and> (truthy (jackettUrl options) \<noteq> truthy (jackettApiKey options) \<longrightarrow>
      generateManifestUrl env getBaseConfig base64EncodeJSON userData services options
        = Inl (Error ''Jackett URL and API Key are required''))
   \<and> (\<not> truthy (jackettUrl options) \<and> \<not> truthy (jackettApiKey options) \<and>
       BUILTIN_JACKETT_URL env = Some u \<and> u \<noteq> [] \<and>
       BUILTIN_JACKETT_API_KEY env = Some k \<and> k \<noteq> [] \<longrightarrow>
      generateManifestUrl env getBaseConfig base64EncodeJSON userData services options
        = Inr (INTERNAL_URL env @ ''/builtins/torznab/'' @
               base64EncodeJSON
                 \<lparr> base = getBaseConfig userData services,
                   url = strip_trailing_slash u @ ''/api/v2.0/indexers/all/results/torznab'',
                   apiPath = ''/api'', apiKey = k, forceQuerySearch = True \<rparr> @
               ''/manifest.json''))
   \<and> (\<not> truthy (jackettUrl options) \<and> \<not> truthy (jackettApiKey options) \<and>
       (\<not> truthy (BUILTIN_JACKETT_URL env) \<or> \<not> truthy (BUILTIN_JACKETT_API_KEY env)) \<longrightarrow>
      generateManifestUrl env getBaseConfig base64EncodeJSON userData services options
        = Inl (Error ''Jackett URL and API Key are required''))
   \<and> (\<forall>m. generateManifestUrl env getBaseConfig base64EncodeJSON userData services options
          \<noteq> Inl (TypeError m))"
proof (intro conjI impI allI)
  assume "truthy (jackettUrl options) \<or> truthy (jackettApiKey options)"
  then show "generateManifestUrl (env\<lparr>BUILTIN_JACKETT_URL := x, BUILTIN_JACKETT_API_KEY := y\<rparr>)
          getBaseConfig base64EncodeJSON userData services options
        = generateManifestUrl env getBaseConfig base64EncodeJSON userData services options"
    by (auto simp: generateManifestUrl_def split: option.splits)
next
  assume "jackettUrl options = Some u \<and> u \<noteq> [] \<and> jackettApiKey options = Some k \<and> k \<noteq> []"
  then show "generateManifestUrl env getBaseConfig base64EncodeJSON userData services options
        = Inr (INTERNAL_URL env @ ''/builtins/torznab/'' @
               base64EncodeJSON
                 \<lparr> base = getBaseConfig userData services,
                   url = strip_trailing_slash u @ ''/api/v2.0/indexers/all/results/torznab'',
                   apiPath = ''/api'', apiKey = k, forceQuerySearch = True \<rparr> @
               ''/manifest.json'')"
    by (simp add: generateManifestUrl_def truthy_def)
next
  assume "truthy (jackettUrl options) \<noteq> truthy (jackettApiKey options)"
  then show "generateManifestUrl env getBaseConfig base64EncodeJSON userData services options
        = Inl (Error ''Jackett URL and API Key are required'')"
    by (auto simp: generateManifestUrl_def)
next
  assume "\<not> truthy (jackettUrl options) \<and> \<not> truthy (jackettApiKey options) \<and>
       BUILTIN_JACKETT_URL env = Some u \<and> u \<noteq> [] \<and>
       BUILTIN_JACKETT_API_KEY env = Some k \<and> k \<noteq> []"
  then show "generateManifestUrl env getBaseConfig base64EncodeJSON userData services options
        = Inr (INTERNAL_URL env @ ''/builtins/torznab/'' @
               base64EncodeJSON
                 \<lparr> base = getBaseConfig userData services,
                   url = strip_trailing_slash u @ ''/api/v2.0/indexers/all/results/torznab'',
                   apiPath = ''/api'', apiKey = k, forceQuerySearch = True \<rparr> @
               ''/manifest.json'')"
    by (simp add: generateManifestUrl_def truthy_def)
next
  assume "\<not> truthy (jackettUrl options) \<and> \<not> truthy (jackettApiKey options) \<and>
       (\<not> truthy (BUILTIN_JACKETT_URL env) \<or> \<not> truthy (BUILTIN_JACKETT_API_KEY env))"
  then show "generateManifestUrl env getBaseConfig base64EncodeJSON userData services options
        = Inl (Error ''Jackett URL and API Key are required'')"
    by (auto simp: generateManifestUrl_def)
next
  fix m
  show "generateManifestUrl env getBaseConfig base64EncodeJSON userData services options
          \<noteq> Inl (TypeError m)"
    by (auto simp: generateManifestUrl_def truthy_def Let_def split: option.splits if_splits)
qed

text \<open>
  With both defaults set in the environment: the user's own URL and key are used; a URL
  without a key is refused; with no user value the defaults are used.
\<close>

theorem generateManifestUrl_defaults_witness:
  "generateManifestUrl ex_env (\<lambda>u s. ()) ex_encode () ()
       \<lparr> jackettUrl = Some ''http://my-jackett'', jackettApiKey = Some ''my-key'' \<rparr>
     = Inr ''http://localhost:3000/builtins/torznab/http://my-jackett/api/v2.0/indexers/all/results/torznab?my-key/manifest.json''
   \<and> generateManifestUrl ex_env (\<lambda>u s. ()) ex_encode () ()
       \<lparr> jackettUrl = Some ''http://my-jackett'', jackettApiKey = None \<rparr>
     = Inl (Error ''Jackett URL and API Key are required'')
   \<and> generateManifestUrl ex_env (\<lambda>u s. ()) ex_encode () ()
       \<lparr> jackettUrl = None, jackettApiKey = None \<rparr>
     = Inr ''http://localhost:3000/builtins/torznab/http://jackett:9117/api/v2.0/indexers/all/results/torznab?builtin-key/manifest.json''"
proof (intro conjI)
  let ?o = "\<lparr> jackettUrl = Some ''http://my-jackett'', jackettApiKey = Some ''my-key'' \<rparr>"
  have "jackettUrl ?o = Some ''http://my-jackett'' \<and> ''http://my-jackett'' \<noteq> [] \<and>
        jackettApiKey ?o = Some ''my-key'' \<and> ''my-key'' \<noteq> []"
    by simp
  with generateManifestUrl_defaults [where options = ?o and env = ex_env
      and getBaseConfig = "\<lambda>u s. ()" and ?base64EncodeJSON = ex_encode and userData = "()"
      and services = "()" and u = "''http://my-jackett''" and k = "''my-key''"]
  have "generateManifestUrl ex_env (\<lambda>u s. ()) ex_encode () () ?o
        = Inr (INTERNAL_URL ex_env @ ''/builtins/torznab/'' @
               ex_encode
                 \<lparr> base = (), url = strip_trailing_slash ''http://my-jackett'' @
                                ''/api/v2.0/indexers/all/results/torznab'',
                   apiPath = ''/api'', apiKey = ''my-key'', forceQuerySearch = True \<rparr> @
               ''/manifest.json'')"
    by blast
  then show "generateManifestUrl ex_env (\<lambda>u s. ()) ex_encode () () ?o
     = Inr ''http://localhost:3000/builtins/torznab/http://my-jackett/api/v2.0/indexers/all/results/torznab?my-key/manifest.json''"
    by (simp add: ex_env_def ex_encode_def strip_trailing_slash_def)
next
  let ?o = "\<lparr> jackettUrl = Some ''http://my-jackett'', jackettApiKey = None \<rparr>"
  have "truthy (jackettUrl ?o) \<noteq> truthy (jackettApiKey ?o)"
    by (simp add: truthy_def)
  with generateManifestUrl_defaults [where options = ?o and env = ex_env
      and getBaseConfig = "\<lambda>u s. ()" and ?base64EncodeJSON = ex_encode and userData = "()"
      and services = "()"]
  show "generateManifestUrl ex_env (\<lambda>u s. ()) ex_encode () () ?o
     = Inl (Error ''Jackett URL and API Key are required'')"
    by blast
next
  let ?o = "\<lparr> jackettUrl = None, jackettApiKey = None \<rparr>"
  have "\<not> truthy (jackettUrl ?o) \<and> \<not> truthy (jackettApiKey ?o) \<and>
       BUILTIN_JACKETT_URL ex_env = Some ''http://jackett:9117/'' \<and> ''http://jackett:9117/'' \<noteq> [] \<and>
       BUILTIN_JACKETT_API_KEY ex_env = Some ''builtin-key'' \<and> ''builtin-key'' \<noteq> []"
    by (simp add: truthy_def ex_env_def)
  with generateManifestUrl_defaults [where options = ?o and env = ex_env
      and getBaseConfig = "\<lambda>u s. ()" and ?base64EncodeJSON = ex_encode and userData = "()"
      and services = "()" and u = "''http://jackett:9117/''" and k = "''builtin-key''"]
  have "generateManifestUrl ex_env (\<lambda>u s. ()) ex_encode () () ?o
        = Inr (INTERNAL_URL ex_env @ ''/builtins/torznab/'' @
               ex_encode
                 \<lparr> base = (), url = strip_trailing_slash ''http://jackett:9117/'' @
                                ''/api/v2.0/indexers/all/results/torznab'',
                   apiPath = ''/api'', apiKey = ''builtin-key'', forceQuerySearch = True \<rparr> @
               ''/manifest.json'')"
    by blast
  then show "generateManifestUrl ex_env (\<lambda>u s. ()) ex_encode () () ?o
     = Inr ''http://localhost:3000/builtins/torznab/http://jackett:9117/api/v2.0/indexers/all/results/torznab?builtin-key/manifest.json''"
    by (simp add: ex_env_def ex_encode_def strip_trailing_slash_def)
qed

end
